theory Spec2Isabelle
  imports Main "HOL-Library.Sublist"
begin

section \<open>Errors\<close>

text \<open>
  Every exception the program can raise is a value of \<open>error\<close>; a fallible function
  returns \<open>error + 'a\<close> with \<open>Inl\<close> for the raise. The constructors follow the origin
  of the exception:
  \<^item> \<open>UnsupportedFormat\<close> is \<^verbatim>\<open>ValueError("Supported input formats: .csv, .json")\<close>
    raised by \<^verbatim>\<open>run_review\<close>;
  \<^item> \<open>ValueError\<close> is the exception of the \<^verbatim>\<open>datetime\<close> module: a constructor
    argument out of range in \<^verbatim>\<open>date(y, m, d)\<close>, or a string that
    \<^verbatim>\<open>strptime\<close> does not accept;
  \<^item> \<open>OverflowError\<close> is raised by \<^verbatim>\<open>date(y, m, d)\<close> when an argument does not
    fit the C integer the constructor converts it to;
  \<^item> \<open>AttributeError\<close> is reading a field of an object that has none of that name;
  \<^item> \<open>KeyError k\<close> is a subscript \<^verbatim>\<open>row[k]\<close> with a missing key;
  \<^item> \<open>TypeError\<close> is an operation on a value of the wrong type (\<^verbatim>\<open>strptime(None, ...)\<close>,
    subscripting or iterating a value that supports neither);
  \<^item> \<open>ReadError\<close> is any exception of the external readers (opening and decoding the
    file, \<^verbatim>\<open>csv\<close>, \<^verbatim>\<open>json.loads\<close>).
\<close>

datatype error =
  UnsupportedFormat | ValueError | OverflowError | KeyError string | TypeError
  | AttributeError | ReadError

section \<open>Calendar dates\<close>

text \<open>
  A \<^verbatim>\<open>datetime.date\<close> is a triple of year, month and day. Python builds one only
  through the checking constructor (\<open>date_new\<close> below), so every date of a run satisfies
  \<open>valid_date\<close>; the record itself does not enforce it, and the theorems assume it of
  their inputs.
\<close>

record date =
  year :: int
  month :: int
  day :: int

text \<open>The library's calendar tables (\<^verbatim>\<open>_is_leap\<close>, \<^verbatim>\<open>_days_in_month\<close>,
  \<^verbatim>\<open>_days_before_year\<close>, \<^verbatim>\<open>_days_before_month\<close>, \<^verbatim>\<open>_ymd2ord\<close>).\<close>

definition py_is_leap :: "int \<Rightarrow> bool" where
  "py_is_leap y = (y mod 4 = 0 \<and> (y mod 100 \<noteq> 0 \<or> y mod 400 = 0))"

definition py_days_in_month :: "int \<Rightarrow> int \<Rightarrow> int" where
  "py_days_in_month y m =
     (if m = 2 \<and> py_is_leap y then 29
      else if m = 2 then 28
      else if m = 4 \<or> m = 6 \<or> m = 9 \<or> m = 11 then 30
      else 31)"

definition py_days_before_year :: "int \<Rightarrow> int" where
  "py_days_before_year y =
     (let p = y - 1 in p * 365 + p div 4 - p div 100 + p div 400)"

definition py_days_before_month :: "int \<Rightarrow> int \<Rightarrow> int" where
  "py_days_before_month y m =
     (if m = 1 then 0 else if m = 2 then 31 else if m = 3 then 59
      else if m = 4 then 90 else if m = 5 then 120 else if m = 6 then 151
      else if m = 7 then 181 else if m = 8 then 212 else if m = 9 then 243
      else if m = 10 then 273 else if m = 11 then 304 else 334)
     + (if m > 2 \<and> py_is_leap y then 1 else 0)"

definition date_toordinal :: "date \<Rightarrow> int" where
  "date_toordinal d =
     py_days_before_year (year d) + py_days_before_month (year d) (month d) + day d"

definition valid_date :: "date \<Rightarrow> bool" where
  "valid_date d =
     (1 \<le> year d \<and> year d \<le> 9999 \<and> 1 \<le> month d \<and> month d \<le> 12 \<and>
      1 \<le> day d \<and> day d \<le> py_days_in_month (year d) (month d))"

text \<open>\<^verbatim>\<open>date(y, m, d)\<close>. The constructor first converts its three arguments to C
  integers of 32 bits and raises \<^verbatim>\<open>OverflowError\<close> when one does not fit; it then
  raises \<^verbatim>\<open>ValueError\<close> outside \<^verbatim>\<open>MINYEAR..MAXYEAR\<close> (1..9999), outside months
  1..12 and outside the days of the month.\<close>

definition c_int :: "int \<Rightarrow> bool" where
  "c_int n = (- 2147483648 \<le> n \<and> n \<le> 2147483647)"

definition date_new :: "int \<Rightarrow> int \<Rightarrow> int \<Rightarrow> error + date" where
  "date_new y m d =
     (if \<not> (c_int y \<and> c_int m \<and> c_int d) then Inl OverflowError
      else if 1 \<le> y \<and> y \<le> 9999 \<and> 1 \<le> m \<and> m \<le> 12 \<and> 1 \<le> d \<and> d \<le> py_days_in_month y m
      then Inr \<lparr>year = y, month = m, day = d\<rparr>
      else Inl ValueError)"

text \<open>Dates compare as their (year, month, day) triples, lexicographically.\<close>

definition date_le :: "date \<Rightarrow> date \<Rightarrow> bool" where
  "date_le a b =
     (year a < year b \<or>
      (year a = year b \<and> (month a < month b \<or> (month a = month b \<and> day a \<le> day b))))"

section \<open>Calendar arithmetic\<close>

text \<open>
  \<^verbatim>\<open>_days_in_month(year, month)\<close>: the first day of the following month minus the
  first day of this one, in days. Both dates go through the checking constructor, the
  following month first.
\<close>

definition days_in_month :: "int \<Rightarrow> int \<Rightarrow> error + int" where
  "days_in_month y m =
     (case (if m = 12 then date_new (y + 1) 1 1 else date_new y (m + 1) 1) of
        Inl e \<Rightarrow> Inl e
      | Inr next_month \<Rightarrow>
          (case date_new y m 1 of
             Inl e \<Rightarrow> Inl e
           | Inr first \<Rightarrow> Inr (date_toordinal next_month - date_toordinal first)))"

text \<open>
  \<^verbatim>\<open>_subtract_months(anchor, months)\<close>. Python's \<^verbatim>\<open>//\<close> and \<^verbatim>\<open>%\<close> on
  integers are floor division and its remainder, as \<open>div\<close> and \<open>mod\<close> on \<open>int\<close> are.
\<close>

definition subtract_months :: "date \<Rightarrow> int \<Rightarrow> error + date" where
  "subtract_months anchor months =
     (let total_months = year anchor * 12 + (month anchor - 1) - months;
          y = total_months div 12;
          m = total_months mod 12 + 1
      in case days_in_month y m of
           Inl e \<Rightarrow> Inl e
         | Inr dim \<Rightarrow> date_new y m (min (day anchor) dim))"

section \<open>Accounts and review items\<close>

text \<open>
  The two frozen dataclasses. Python does not enforce the annotations of a dataclass:
  the loaders store whatever the parsed record holds, and that can be \<^verbatim>\<open>None\<close> where
  the annotation says \<^verbatim>\<open>str\<close> (a CSV row shorter than the header, a JSON null). Each
  text field is therefore a \<open>string option\<close>, with \<open>None\<close> for Python's
  \<^verbatim>\<open>None\<close>. A string is a list of characters with codes 0 to 255.
\<close>

record Account =
  account_id :: "string option"
  account_name :: "string option"
  churned_at :: date
  churn_reason :: "string option"
  owner :: "string option"

record ReviewItem =
  account :: Account
  review_notes :: string
  next_action :: string

text \<open>The invariant of the data model: the identifier and the name are present, the
  churn date is a calendar date, and an absent reason or owner is \<^verbatim>\<open>None\<close>, never
  the empty string.\<close>

definition account_inv :: "Account \<Rightarrow> bool" where
  "account_inv a =
     (account_id a \<noteq> None \<and> account_name a \<noteq> None \<and> valid_date (churned_at a) \<and>
      churn_reason a \<noteq> Some [] \<and> owner a \<noteq> Some [])"

section \<open>Parsing a date\<close>

text \<open>
  \<^verbatim>\<open>datetime.strptime(value, "%Y-%m-%d").date()\<close>. The library turns the format into
  the regular expression
  \<^verbatim>\<open>(?P<Y>\d\d\d\d)-(?P<m>1[0-2]|0[1-9]|[1-9])-(?P<d>3[01]|[12]\d|0[1-9]|[1-9]| [1-9])\<close>,
  matches it at the start of the string, and raises \<^verbatim>\<open>ValueError\<close> when it does not
  match or when the match stops before the end of the string. The alternatives are tried
  in the order written, and the first way through the whole expression is the match.
  The three numbers then go to the checking constructor.
\<close>

definition is_digit :: "char \<Rightarrow> bool" where
  "is_digit c = (48 \<le> (of_char c :: nat) \<and> (of_char c :: nat) \<le> 57)"

definition digit_val :: "char \<Rightarrow> int" where
  "digit_val c = int (of_char c) - 48"

text \<open>Every alternative of the month group that matches a prefix, in order, with the
  rest of the string.\<close>

definition match_month :: "string \<Rightarrow> (int \<times> string) list" where
  "match_month s =
     (case s of
        a # b # r \<Rightarrow>
          (if a = CHR ''1'' \<and> (b = CHR ''0'' \<or> b = CHR ''1'' \<or> b = CHR ''2'')
           then [(10 + digit_val b, r)] else []) @
          (if a = CHR ''0'' \<and> is_digit b \<and> b \<noteq> CHR ''0'' then [(digit_val b, r)] else [])
      | _ \<Rightarrow> []) @
     (case s of
        a # r \<Rightarrow> (if is_digit a \<and> a \<noteq> CHR ''0'' then [(digit_val a, r)] else [])
      | [] \<Rightarrow> [])"

definition match_day :: "string \<Rightarrow> (int \<times> string) list" where
  "match_day s =
     (case s of
        a # b # r \<Rightarrow>
          (if a = CHR ''3'' \<and> (b = CHR ''0'' \<or> b = CHR ''1'')
           then [(30 + digit_val b, r)] else []) @
          (if (a = CHR ''1'' \<or> a = CHR ''2'') \<and> is_digit b
           then [(10 * digit_val a + digit_val b, r)] else []) @
          (if a = CHR ''0'' \<and> is_digit b \<and> b \<noteq> CHR ''0'' then [(digit_val b, r)] else [])
      | _ \<Rightarrow> []) @
     (case s of
        a # r \<Rightarrow> (if is_digit a \<and> a \<noteq> CHR ''0'' then [(digit_val a, r)] else [])
      | [] \<Rightarrow> []) @
     (case s of
        a # b # r \<Rightarrow>
          (if a = CHR '' '' \<and> is_digit b \<and> b \<noteq> CHR ''0'' then [(digit_val b, r)] else [])
      | _ \<Rightarrow> [])"

definition strptime_ymd :: "string \<Rightarrow> error + (int \<times> int \<times> int)" where
  "strptime_ymd s =
     (case s of
        y1 # y2 # y3 # y4 # dash # rest \<Rightarrow>
          if is_digit y1 \<and> is_digit y2 \<and> is_digit y3 \<and> is_digit y4 \<and> dash = CHR ''-''
          then
            (case concat (map (\<lambda>(m, r).
                     case r of
                       c # r' \<Rightarrow> if c = CHR ''-'' then map (\<lambda>(d, e). (m, d, e)) (match_day r')
                                 else []
                     | [] \<Rightarrow> [])
                   (match_month rest)) of
               [] \<Rightarrow> Inl ValueError
             | (m, d, e) # _ \<Rightarrow>
                 if e = []
                 then Inr (1000 * digit_val y1 + 100 * digit_val y2 + 10 * digit_val y3
                             + digit_val y4, m, d)
                 else Inl ValueError)
          else Inl ValueError
      | _ \<Rightarrow> Inl ValueError)"

text \<open>\<^verbatim>\<open>_parse_date(value)\<close>; \<^verbatim>\<open>strptime\<close> raises \<^verbatim>\<open>TypeError\<close> on
  \<^verbatim>\<open>None\<close>.\<close>

definition parse_date :: "string option \<Rightarrow> error + date" where
  "parse_date v =
     (case v of
        None \<Rightarrow> Inl TypeError
      | Some s \<Rightarrow>
          (case strptime_ymd s of
             Inl e \<Rightarrow> Inl e
           | Inr (y, m, d) \<Rightarrow> date_new y m d))"

section \<open>Loaders\<close>

text \<open>
  A parsed record is a dictionary from field names to values, here an association list
  read through \<open>map_of\<close>. A value is a string or \<^verbatim>\<open>None\<close>: in a CSV row
  \<^verbatim>\<open>None\<close> is what \<^verbatim>\<open>csv.DictReader\<close> fills in when the row is shorter than
  the header; in a JSON object it is \<^verbatim>\<open>null\<close>. JSON objects whose members under the
  five field names are numbers, booleans, arrays or objects are outside the model.
\<close>

type_synonym record_dict = "(string \<times> string option) list"

text \<open>\<^verbatim>\<open>d[k]\<close>, \<^verbatim>\<open>d.get(k)\<close> and \<^verbatim>\<open>x or None\<close>.\<close>

definition subscript :: "record_dict \<Rightarrow> string \<Rightarrow> error + string option" where
  "subscript d k = (case map_of d k of None \<Rightarrow> Inl (KeyError k) | Some v \<Rightarrow> Inr v)"

definition dict_get :: "record_dict \<Rightarrow> string \<Rightarrow> string option" where
  "dict_get d k = (case map_of d k of None \<Rightarrow> None | Some v \<Rightarrow> v)"

definition or_none :: "string option \<Rightarrow> string option" where
  "or_none x = (case x of None \<Rightarrow> None | Some s \<Rightarrow> if s = [] then None else Some s)"

text \<open>The body of the loop of \<^verbatim>\<open>load_accounts_from_csv\<close>, over the rows the reader
  yields; the date is parsed before the other fields are read.\<close>

fun csv_rows_loop :: "record_dict list \<Rightarrow> Account list \<Rightarrow> error + Account list" where
  "csv_rows_loop [] accounts = Inr accounts"
| "csv_rows_loop (row # rows) accounts =
     (case subscript row ''churned_at'' of
        Inl e \<Rightarrow> Inl e
      | Inr v \<Rightarrow>
     (case parse_date v of
        Inl e \<Rightarrow> Inl e
      | Inr churned \<Rightarrow>
     (case subscript row ''account_id'' of
        Inl e \<Rightarrow> Inl e
      | Inr ident \<Rightarrow>
     (case subscript row ''account_name'' of
        Inl e \<Rightarrow> Inl e
      | Inr name \<Rightarrow>
          csv_rows_loop rows
            (accounts @
              [\<lparr>account_id = ident, account_name = name, churned_at = churned,
                churn_reason = or_none (dict_get row ''churn_reason''),
                owner = or_none (dict_get row ''owner'')\<rparr>])))))"

text \<open>
  The value of \<^verbatim>\<open>json.loads\<close>. The loader iterates over it and subscripts each element
  with a field name: an element that is not an object raises \<^verbatim>\<open>TypeError\<close> there.
  A top-level object or string iterates as its keys or its characters, which are
  strings: such a document behaves as the array of that many non-objects. A number,
  a boolean or null is not iterable.
\<close>

datatype json_entry = JObject record_dict | JNonObject

datatype json_doc = JArray "json_entry list" | JScalar

fun json_entries_loop :: "json_entry list \<Rightarrow> Account list \<Rightarrow> error + Account list" where
  "json_entries_loop [] accounts = Inr accounts"
| "json_entries_loop (JNonObject # entries) accounts = Inl TypeError"
| "json_entries_loop (JObject entry # entries) accounts =
     (case subscript entry ''account_id'' of
        Inl e \<Rightarrow> Inl e
      | Inr ident \<Rightarrow>
     (case subscript entry ''account_name'' of
        Inl e \<Rightarrow> Inl e
      | Inr name \<Rightarrow>
     (case subscript entry ''churned_at'' of
        Inl e \<Rightarrow> Inl e
      | Inr v \<Rightarrow>
     (case parse_date v of
        Inl e \<Rightarrow> Inl e
      | Inr churned \<Rightarrow>
          json_entries_loop entries
            (accounts @
              [\<lparr>account_id = ident, account_name = name, churned_at = churned,
                churn_reason = dict_get entry ''churn_reason'',
                owner = dict_get entry ''owner''\<rparr>])))))"

text \<open>
  The file system and the clock. \<^verbatim>\<open>pathlib\<close> computes the \<^verbatim>\<open>suffix\<close> of a path;
  the model takes it as a field of the path. Opening a CSV file gives an error, or the
  rows the reader yields and the error that ends the reading early, if any; reading
  and parsing a JSON file gives an error or the parsed document. Every access to a file
  is appended to a log, and each function returns the log with its result.
\<close>

record Path =
  path_str :: string
  suffix :: string

datatype file_access = CsvOpened Path | JsonRead Path

record env =
  open_csv :: "Path \<Rightarrow> error + (record_dict list \<times> error option)"
  read_json :: "Path \<Rightarrow> error + json_doc"
  today :: date

definition load_accounts_from_csv ::
    "env \<Rightarrow> Path \<Rightarrow> file_access list \<Rightarrow> (error + Account list) \<times> file_access list" where
  "load_accounts_from_csv w path log =
     ((case open_csv w path of
         Inl e \<Rightarrow> Inl e
       | Inr (rows, failure) \<Rightarrow>
           (case csv_rows_loop rows [] of
              Inl e \<Rightarrow> Inl e
            | Inr accounts \<Rightarrow>
                (case failure of Some e \<Rightarrow> Inl e | None \<Rightarrow> Inr accounts))),
      log @ [CsvOpened path])"

definition load_accounts_from_json ::
    "env \<Rightarrow> Path \<Rightarrow> file_access list \<Rightarrow> (error + Account list) \<times> file_access list" where
  "load_accounts_from_json w path log =
     ((case read_json w path of
         Inl e \<Rightarrow> Inl e
       | Inr JScalar \<Rightarrow> Inl TypeError
       | Inr (JArray entries) \<Rightarrow> json_entries_loop entries []),
      log @ [JsonRead path])"

section \<open>Selection\<close>

text \<open>The list comprehension of \<^verbatim>\<open>select_recent_churns\<close>.\<close>

fun within_window :: "date \<Rightarrow> date \<Rightarrow> Account list \<Rightarrow> Account list" where
  "within_window cutoff as_of [] = []"
| "within_window cutoff as_of (a # accounts) =
     (if date_le cutoff (churned_at a) \<and> date_le (churned_at a) as_of
      then a # within_window cutoff as_of accounts
      else within_window cutoff as_of accounts)"

text \<open>\<^verbatim>\<open>select_recent_churns(accounts, months=..., as_of=...)\<close>; the first argument
  is the clock's date, read when \<^verbatim>\<open>as_of\<close> is \<^verbatim>\<open>None\<close>.\<close>

definition select_recent_churns ::
    "date \<Rightarrow> Account list \<Rightarrow> int \<Rightarrow> date option \<Rightarrow> error + Account list" where
  "select_recent_churns clock accounts months as_of =
     (let anchor = (case as_of of None \<Rightarrow> clock | Some d \<Rightarrow> d)
      in case subtract_months anchor months of
           Inl e \<Rightarrow> Inl e
         | Inr cutoff \<Rightarrow> Inr (within_window cutoff anchor accounts))"

section \<open>The review plan\<close>

text \<open>\<^verbatim>\<open>build_review_plan\<close>: a loop that appends one item per account. The tests
  \<^verbatim>\<open>if account.churn_reason:\<close> and \<^verbatim>\<open>if account.owner:\<close> are truth tests:
  \<^verbatim>\<open>None\<close> and the empty string are false, every other string is true.\<close>

definition truthy :: "string option \<Rightarrow> bool" where
  "truthy x = (case x of None \<Rightarrow> False | Some s \<Rightarrow> s \<noteq> [])"

definition review_item :: "Account \<Rightarrow> ReviewItem" where
  "review_item a =
     (let notes = ''Confirm churn reason and validate offboarding completion.'';
          action = ''Schedule follow-up with account owner.'';
          notes = (if truthy (churn_reason a)
                   then ''Review churn reason: '' @ the (churn_reason a) @ ''.'' else notes);
          action = (if truthy (owner a)
                    then ''Schedule follow-up with '' @ the (owner a) @ ''.'' else action)
      in \<lparr>account = a, review_notes = notes, next_action = action\<rparr>)"

fun review_loop :: "Account list \<Rightarrow> ReviewItem list \<Rightarrow> ReviewItem list" where
  "review_loop [] review_items = review_items"
| "review_loop (a # accounts) review_items =
     review_loop accounts (review_items @ [review_item a])"

definition build_review_plan :: "Account list \<Rightarrow> ReviewItem list" where
  "build_review_plan accounts = review_loop accounts []"

section \<open>The review plan over a store\<close>

text \<open>
  In Python the accounts and the review items are objects reached through references:
  the sequence handed to \<^verbatim>\<open>build_review_plan\<close> holds references, and a
  \<^verbatim>\<open>ReviewItem\<close> keeps a reference to its account. To state what the function leaves
  alone and where it could fail, the same loop is written over an explicit store. The
  store is a list of objects, a reference is a position in it, and creating an object
  appends it to the store. Reading \<^verbatim>\<open>account.churn_reason\<close> or
  \<^verbatim>\<open>account.owner\<close> of an object that is not an \<^verbatim>\<open>Account\<close> raises
  \<^verbatim>\<open>AttributeError\<close>; a reference outside the store does not arise in Python and is
  given the same error. The notes and the action are those of \<open>review_item\<close>.
  \<open>read_item\<close> reads a review item back from the store together with the account it
  refers to; \<open>new_items\<close> lists the objects the loop creates.
\<close>

type_synonym ref = nat

datatype object = AccountObject Account | ReviewItemObject ref string string | OtherObject

type_synonym store = "object list"

definition lookup :: "store \<Rightarrow> ref \<Rightarrow> object option" where
  "lookup s r = (if r < length s then Some (s ! r) else None)"

fun review_loop_store :: "store \<Rightarrow> ref list \<Rightarrow> ref list \<Rightarrow> error + (ref list \<times> store)" where
  "review_loop_store s [] review_items = Inr (review_items, s)"
| "review_loop_store s (r # accounts) review_items =
     (case lookup s r of
        Some (AccountObject a) \<Rightarrow>
          review_loop_store
            (s @ [ReviewItemObject r (review_notes (review_item a)) (next_action (review_item a))])
            accounts (review_items @ [length s])
      | _ \<Rightarrow> Inl AttributeError)"

definition build_review_plan_store :: "store \<Rightarrow> ref list \<Rightarrow> error + (ref list \<times> store)" where
  "build_review_plan_store s accounts = review_loop_store s accounts []"

definition read_item :: "store \<Rightarrow> ref \<Rightarrow> ReviewItem option" where
  "read_item s i =
     (case lookup s i of
        Some (ReviewItemObject r notes action) \<Rightarrow>
          (case lookup s r of
             Some (AccountObject a) \<Rightarrow>
               Some \<lparr>account = a, review_notes = notes, next_action = action\<rparr>
           | _ \<Rightarrow> None)
      | _ \<Rightarrow> None)"

definition new_items :: "ref list \<Rightarrow> Account list \<Rightarrow> object list" where
  "new_items refs accs =
     map (\<lambda>(r, a). ReviewItemObject r (review_notes (review_item a)) (next_action (review_item a)))
       (zip refs accs)"

section \<open>Dispatch\<close>

text \<open>\<^verbatim>\<open>str.lower()\<close> on characters with codes 0 to 255: the letters A to Z and the
  capital letters of Latin-1 (codes 192 to 222 without the multiplication sign 215)
  move up by 32.\<close>

definition lower_char :: "char \<Rightarrow> char" where
  "lower_char c =
     (let n = (of_char c :: nat)
      in if (65 \<le> n \<and> n \<le> 90) \<or> (192 \<le> n \<and> n \<le> 222 \<and> n \<noteq> 215)
         then char_of (n + 32) else c)"

definition lower :: "string \<Rightarrow> string" where
  "lower s = map lower_char s"

text \<open>The last two lines of \<^verbatim>\<open>run_review\<close>, reached once a loader has returned.\<close>

definition review_loaded ::
    "env \<Rightarrow> int \<Rightarrow> (error + Account list) \<times> file_access list \<Rightarrow>
     (error + ReviewItem list) \<times> file_access list" where
  "review_loaded w months loaded =
     (case loaded of
        (Inl e, log) \<Rightarrow> (Inl e, log)
      | (Inr accounts, log) \<Rightarrow>
          (case select_recent_churns (today w) accounts months None of
             Inl e \<Rightarrow> (Inl e, log)
           | Inr recent_churns \<Rightarrow> (Inr (build_review_plan recent_churns), log)))"

definition run_review ::
    "env \<Rightarrow> Path \<Rightarrow> int \<Rightarrow> file_access list \<Rightarrow> (error + ReviewItem list) \<times> file_access list" where
  "run_review w input_path months log =
     (if lower (suffix input_path) = ''.csv''
      then review_loaded w months (load_accounts_from_csv w input_path log)
      else if lower (suffix input_path) = ''.json''
      then review_loaded w months (load_accounts_from_json w input_path log)
      else (Inl UnsupportedFormat, log))"

section \<open>Examples\<close>

text \<open>An account with the given identifier (also its name) and churn date, without
  reason or owner; the examples below are built from it.\<close>

definition acct :: "string \<Rightarrow> int \<Rightarrow> int \<Rightarrow> int \<Rightarrow> Account" where
  "acct i y m d = \<lparr>account_id = Some i, account_name = Some i,
      churned_at = \<lparr>year = y, month = m, day = d\<rparr>, churn_reason = None, owner = None\<rparr>"

text \<open>A parsed record whose reason and owner are empty strings, a file system that
  holds it both as a CSV row and as the only object of a JSON array, and a file system on
  which every read fails.\<close>

definition example_record :: record_dict where
  "example_record =
     [(''account_id'', Some ''a1''), (''account_name'', Some ''Acme''),
      (''churned_at'', Some ''2024-01-01''), (''churn_reason'', Some ''''),
      (''owner'', Some '''')]"

definition example_files :: env where
  "example_files =
     \<lparr>open_csv = (\<lambda>p. Inr ([example_record], None)),
      read_json = (\<lambda>p. Inr (JArray [JObject example_record])),
      today = \<lparr>year = 2024, month = 6, day = 15\<rparr>\<rparr>"

definition failing_files :: env where
  "failing_files =
     \<lparr>open_csv = (\<lambda>p. Inl ReadError), read_json = (\<lambda>p. Inl ReadError),
      today = \<lparr>year = 2024, month = 6, day = 15\<rparr>\<rparr>"

section \<open>The calendar routine, characterised\<close>

lemma month_cases:
  "1 \<le> (m::int) \<Longrightarrow> m \<le> 12 \<Longrightarrow>
   m = 1 \<or> m = 2 \<or> m = 3 \<or> m = 4 \<or> m = 5 \<or> m = 6 \<or> m = 7 \<or> m = 8 \<or> m = 9 \<or> m = 10 \<or>
   m = 11 \<or> m = 12"
  by arith

lemma py_days_in_month_bounds: "28 \<le> py_days_in_month y m \<and> py_days_in_month y m \<le> 31"
  by (simp add: py_days_in_month_def)

lemma div_step:
  assumes "0 < (k::int)"
  shows "(p + 1) div k = p div k + (if (p + 1) mod k = 0 then 1 else 0)"
proof -
  define q r where "q = p div k" and "r = p mod k"
  have p: "p = k * q + r" and r: "0 \<le> r" "r < k"
    using assms by (simp_all add: q_def r_def)
  show ?thesis
  proof (cases "r + 1 < k")
    case True
    have e: "p + 1 = k * q + (r + 1)" using p by simp
    have d: "(p + 1) div k = q"
      by (rule int_div_pos_eq [OF e]) (use r True in simp_all)
    have m: "(p + 1) mod k = r + 1"
      by (rule int_mod_pos_eq [OF e]) (use r True in simp_all)
    show ?thesis using d m r by (simp add: q_def)
  next
    case False
    with r have rk: "r + 1 = k" by simp
    have e: "p + 1 = k * (q + 1) + 0" using p rk by (simp add: algebra_simps)
    have d: "(p + 1) div k = q + 1"
      by (rule int_div_pos_eq [OF e]) (use assms in simp_all)
    have m: "(p + 1) mod k = 0"
      by (rule int_mod_pos_eq [OF e]) (use assms in simp_all)
    show ?thesis using d m by (simp add: q_def)
  qed
qed


lemma mod100_mod4: "(y::int) mod 100 = 0 \<Longrightarrow> y mod 4 = 0"
proof -
  assume "y mod 100 = 0"
  then have "100 dvd y" by (simp add: dvd_eq_mod_eq_0)
  moreover have "(4::int) dvd 100" by simp
  ultimately have "4 dvd y" by (rule dvd_trans [rotated])
  then show ?thesis by (simp add: dvd_eq_mod_eq_0)
qed

lemma mod400_mod100: "(y::int) mod 400 = 0 \<Longrightarrow> y mod 100 = 0"
proof -
  assume "y mod 400 = 0"
  then have "400 dvd y" by (simp add: dvd_eq_mod_eq_0)
  moreover have "(100::int) dvd 400" by simp
  ultimately have "100 dvd y" by (rule dvd_trans [rotated])
  then show ?thesis by (simp add: dvd_eq_mod_eq_0)
qed

lemma year_length:
  "py_days_before_year (y + 1) - py_days_before_year y = (if py_is_leap y then 366 else 365)"
proof -
  have a: "y div 4 = (y - 1) div 4 + (if y mod 4 = 0 then 1 else 0)"
    using div_step [of 4 "y - 1"] by simp
  have b: "y div 100 = (y - 1) div 100 + (if y mod 100 = 0 then 1 else 0)"
    using div_step [of 100 "y - 1"] by simp
  have c: "y div 400 = (y - 1) div 400 + (if y mod 400 = 0 then 1 else 0)"
    using div_step [of 400 "y - 1"] by simp
  have e: "py_days_before_year (y + 1) - py_days_before_year y =
        365 + (if y mod 4 = 0 then 1 else 0) - (if y mod 100 = 0 then 1 else 0)
            + (if y mod 400 = 0 then 1 else 0)"
    unfolding py_days_before_year_def Let_def
    by (simp only: add_diff_cancel_right' a b c) (simp add: algebra_simps)
  show ?thesis
  proof (cases "y mod 400 = 0")
    case True
    then show ?thesis using e mod400_mod100 [OF True] mod100_mod4 [of y]
      by (simp add: py_is_leap_def)
  next
    case False
    then show ?thesis using e mod100_mod4 [of y]
      by (cases "y mod 100 = 0"; cases "y mod 4 = 0"; simp add: py_is_leap_def)
  qed
qed

lemma date_new_first:
  "date_new y m 1 =
     (if \<not> (c_int y \<and> c_int m) then Inl OverflowError
      else if 1 \<le> y \<and> y \<le> 9999 \<and> 1 \<le> m \<and> m \<le> 12
      then Inr \<lparr>year = y, month = m, day = 1\<rparr> else Inl ValueError)"
  using py_days_in_month_bounds [of y m] by (simp add: date_new_def c_int_def)

lemma days_in_month_december:
  "days_in_month y 12 =
     (if \<not> c_int (y + 1) then Inl OverflowError
      else if 1 \<le> y \<and> y \<le> 9998 then Inr 31 else Inl ValueError)"
proof (cases "1 \<le> y \<and> y \<le> 9998")
  case True
  have "date_toordinal \<lparr>year = y + 1, month = 1, day = 1\<rparr>
          - date_toordinal \<lparr>year = y, month = 12, day = 1\<rparr> = 31"
    using year_length [of y]
    by (simp add: date_toordinal_def py_days_before_month_def)
  then show ?thesis using True
    by (simp add: days_in_month_def date_new_first c_int_def)
next
  case False
  then show ?thesis
    by (auto simp: days_in_month_def date_new_first c_int_def)
qed

lemma days_in_month_other:
  assumes "m \<noteq> 12"
  shows "days_in_month y m =
     (if \<not> (c_int y \<and> c_int (m + 1)) then Inl OverflowError
      else if 1 \<le> y \<and> y \<le> 9999 \<and> 1 \<le> m \<and> m \<le> 11 then Inr (py_days_in_month y m)
      else Inl ValueError)"
proof (cases "1 \<le> y \<and> y \<le> 9999 \<and> 1 \<le> m \<and> m \<le> 11")
  case True
  then have "m = 1 \<or> m = 2 \<or> m = 3 \<or> m = 4 \<or> m = 5 \<or> m = 6 \<or> m = 7 \<or> m = 8 \<or> m = 9
      \<or> m = 10 \<or> m = 11"
    by arith
  then have "date_toordinal \<lparr>year = y, month = m + 1, day = 1\<rparr>
          - date_toordinal \<lparr>year = y, month = m, day = 1\<rparr> = py_days_in_month y m"
    by (elim disjE) (simp_all add: date_toordinal_def py_days_before_month_def py_days_in_month_def)
  then show ?thesis using True assms
    by (simp add: days_in_month_def date_new_first c_int_def)
next
  case False
  then show ?thesis using assms
    by (auto simp: days_in_month_def date_new_first c_int_def)
qed

text \<open>The year the routine hands to the constructor first: the following year for
  December, the year itself otherwise.\<close>

lemma days_in_month_eq:
  assumes "1 \<le> m" and "m \<le> 12"
  shows "days_in_month y m =
     (if 1 \<le> y \<and> y \<le> 9999 \<and> \<not> (y = 9999 \<and> m = 12) then Inr (py_days_in_month y m)
      else if \<not> c_int (if m = 12 then y + 1 else y) then Inl OverflowError
      else Inl ValueError)"
proof (cases "m = 12")
  case True
  then show ?thesis
    by (simp add: days_in_month_december py_days_in_month_def c_int_def)
next
  case False
  then show ?thesis using assms
    by (simp add: days_in_month_other c_int_def)
qed

lemma subtract_months_eq:
  assumes "valid_date anchor"
  shows "subtract_months anchor months =
     (let t = year anchor * 12 + (month anchor - 1) - months;
          y = t div 12; m = t mod 12 + 1
      in if 1 \<le> y \<and> y \<le> 9999 \<and> \<not> (y = 9999 \<and> m = 12)
         then Inr \<lparr>year = y, month = m, day = min (day anchor) (py_days_in_month y m)\<rparr>
         else if \<not> c_int (if m = 12 then y + 1 else y) then Inl OverflowError
         else Inl ValueError)"
proof -
  define t where "t = year anchor * 12 + (month anchor - 1) - months"
  have m: "1 \<le> t mod 12 + 1" "t mod 12 + 1 \<le> 12"
    by simp_all
  have d: "1 \<le> day anchor" using assms by (simp add: valid_date_def)
  have b: "28 \<le> py_days_in_month (t div 12) (t mod 12 + 1)"
      "py_days_in_month (t div 12) (t mod 12 + 1) \<le> 31"
    using py_days_in_month_bounds by blast+
  have mn: "1 \<le> min (day anchor) (py_days_in_month (t div 12) (t mod 12 + 1))"
      "min (day anchor) (py_days_in_month (t div 12) (t mod 12 + 1)) \<le> 31"
    using d b by simp_all
  have c: "c_int (min (day anchor) (py_days_in_month (t div 12) (t mod 12 + 1)))"
      "c_int (t mod 12 + 1)"
    using mn m unfolding c_int_def by linarith+
  have y: "1 \<le> t div 12 \<and> t div 12 \<le> 9999 \<Longrightarrow> c_int (t div 12)"
    unfolding c_int_def by linarith
  show ?thesis
    unfolding subtract_months_def Let_def t_def [symmetric] days_in_month_eq [OF m]
    using m mn c y by (simp add: date_new_def)
qed

lemma subtract_months_Inr:
  assumes "valid_date anchor" and "subtract_months anchor months = Inr r"
  shows "r = \<lparr>year = (year anchor * 12 + (month anchor - 1) - months) div 12,
              month = (year anchor * 12 + (month anchor - 1) - months) mod 12 + 1,
              day = min (day anchor)
                (py_days_in_month ((year anchor * 12 + (month anchor - 1) - months) div 12)
                   ((year anchor * 12 + (month anchor - 1) - months) mod 12 + 1))\<rparr>"
    and "1 \<le> (year anchor * 12 + (month anchor - 1) - months) div 12"
    and "(year anchor * 12 + (month anchor - 1) - months) div 12 \<le> 9999"
  using assms(2) unfolding subtract_months_eq [OF assms(1)] Let_def
  by (simp_all split: if_splits)

lemma subtract_months_valid:
  assumes "valid_date anchor" and "subtract_months anchor months = Inr r"
  shows "valid_date r"
proof -
  let ?t = "year anchor * 12 + (month anchor - 1) - months"
  have d: "1 \<le> day anchor" using assms(1) by (simp add: valid_date_def)
  have b: "28 \<le> py_days_in_month (?t div 12) (?t mod 12 + 1)"
    using py_days_in_month_bounds by blast
  show ?thesis
    using subtract_months_Inr [OF assms] d b
    by (simp add: valid_date_def)
qed

lemma subtract_zero_months:
  assumes "valid_date d" and "\<not> (year d = 9999 \<and> month d = 12)"
  shows "subtract_months d 0 = Inr d"
proof -
  define t where "t = year d * 12 + (month d - 1) - 0"
  have m: "1 \<le> month d" "month d \<le> 12" and y: "1 \<le> year d" "year d \<le> 9999"
    and dd: "day d \<le> py_days_in_month (year d) (month d)"
    using assms(1) by (simp_all add: valid_date_def)
  have q: "t div 12 = year d"
    using m by (simp add: t_def)
  have r: "t mod 12 + 1 = month d"
    using m by (simp add: t_def)
  have "subtract_months d 0 =
      (if 1 \<le> t div 12 \<and> t div 12 \<le> 9999 \<and> \<not> (t div 12 = 9999 \<and> t mod 12 + 1 = 12)
       then Inr \<lparr>year = t div 12, month = t mod 12 + 1,
                 day = min (day d) (py_days_in_month (t div 12) (t mod 12 + 1))\<rparr>
       else if \<not> c_int (if t mod 12 + 1 = 12 then t div 12 + 1 else t div 12)
       then Inl OverflowError else Inl ValueError)"
    unfolding subtract_months_eq [OF assms(1)] Let_def t_def ..
  also have "\<dots> = Inr \<lparr>year = year d, month = month d, day = day d\<rparr>"
    unfolding q r using assms(2) y dd by simp
  finally show ?thesis by simp
qed

lemma target_in_range:
  "(1 \<le> (t::int) div 12 \<and> t div 12 \<le> 9999 \<and> \<not> (t div 12 = 9999 \<and> t mod 12 + 1 = 12))
     = (12 \<le> t \<and> t < 119999)"
  by arith

text \<open>Outside that range the routine raises: \<^verbatim>\<open>OverflowError\<close> when the year it hands to
  the constructor does not fit a C integer, \<^verbatim>\<open>ValueError\<close> otherwise.\<close>

lemma subtract_months_out_of_range:
  assumes "valid_date anchor"
    and "\<not> (12 \<le> year anchor * 12 + (month anchor - 1) - months \<and>
            year anchor * 12 + (month anchor - 1) - months < 119999)"
  shows "subtract_months anchor months =
     (let t = year anchor * 12 + (month anchor - 1) - months
      in if c_int (if t mod 12 + 1 = 12 then t div 12 + 1 else t div 12)
         then Inl ValueError else Inl OverflowError)"
  using assms(2) unfolding target_in_range [symmetric] subtract_months_eq [OF assms(1)] Let_def
  by simp

section \<open>Claims about the calendar routine\<close>

text \<open>
  C2. The routine clamps the day of the month. Whenever \<^verbatim>\<open>_subtract_months\<close> returns a
  date for a valid anchor, that date is a valid calendar date in the target month (the
  month and year of the absolute month index, so no rollover into the following month),
  and its day is the smaller of the anchor's day and the last day of the target month:
  the last day when the anchor's day does not exist there, the anchor's day otherwise.
  March 31 of 2024 minus one month is February 29, and March 31 of 2023 minus one month
  is February 28.
\<close>

theorem subtract_months_clamps_day:
  "(valid_date anchor \<and> subtract_months anchor months = Inr r \<longrightarrow>
      valid_date r \<and>
      year r = (year anchor * 12 + (month anchor - 1) - months) div 12 \<and>
      month r = (year anchor * 12 + (month anchor - 1) - months) mod 12 + 1 \<and>
      day r = min (day anchor) (py_days_in_month (year r) (month r)) \<and>
      (py_days_in_month (year r) (month r) < day anchor \<longrightarrow>
         day r = py_days_in_month (year r) (month r)) \<and>
      (day anchor \<le> py_days_in_month (year r) (month r) \<longrightarrow> day r = day anchor)) \<and>
   subtract_months \<lparr>year = 2024, month = 3, day = 31\<rparr> 1
     = Inr \<lparr>year = 2024, month = 2, day = 29\<rparr> \<and>
   subtract_months \<lparr>year = 2023, month = 3, day = 31\<rparr> 1
     = Inr \<lparr>year = 2023, month = 2, day = 28\<rparr>"
proof (intro conjI impI)
  assume h: "valid_date anchor \<and> subtract_months anchor months = Inr r"
  then have v: "valid_date anchor" and s: "subtract_months anchor months = Inr r"
    by simp_all
  note e = subtract_months_Inr(1) [OF v s]
  show "valid_date r" by (rule subtract_months_valid [OF v s])
  show y: "year r = (year anchor * 12 + (month anchor - 1) - months) div 12"
    by (subst e) simp
  show m: "month r = (year anchor * 12 + (month anchor - 1) - months) mod 12 + 1"
    by (subst e) simp
  show d: "day r = min (day anchor) (py_days_in_month (year r) (month r))"
    unfolding y m by (subst e) simp
  show "day r = py_days_in_month (year r) (month r)"
    if "py_days_in_month (year r) (month r) < day anchor"
    using d that by simp
  show "day r = day anchor" if "day anchor \<le> py_days_in_month (year r) (month r)"
    using d that by simp
next
  show "subtract_months \<lparr>year = 2024, month = 3, day = 31\<rparr> 1
     = Inr \<lparr>year = 2024, month = 2, day = 29\<rparr>"
    by (simp add: subtract_months_eq valid_date_def py_days_in_month_def py_is_leap_def)
  show "subtract_months \<lparr>year = 2023, month = 3, day = 31\<rparr> 1
     = Inr \<lparr>year = 2023, month = 2, day = 28\<rparr>"
    by (simp add: subtract_months_eq valid_date_def py_days_in_month_def py_is_leap_def)
qed

theorem subtract_months_clamps_day_witness:
  "valid_date \<lparr>year = 2024, month = 7, day = 31\<rparr> \<and>
   subtract_months \<lparr>year = 2024, month = 7, day = 31\<rparr> 13
     = Inr \<lparr>year = 2023, month = 6, day = 30\<rparr> \<and>
   valid_date \<lparr>year = 2023, month = 6, day = 30\<rparr> \<and>
   py_days_in_month 2023 6 < 31 \<and>
   day \<lparr>year = 2023, month = 6, day = 30\<rparr> = py_days_in_month 2023 6"
proof -
  have v: "valid_date \<lparr>year = 2024, month = 7, day = 31\<rparr>"
    by (simp add: valid_date_def py_days_in_month_def)
  have s: "subtract_months \<lparr>year = 2024, month = 7, day = 31\<rparr> 13
     = Inr \<lparr>year = 2023, month = 6, day = 30\<rparr>"
    by (simp add: subtract_months_eq [OF v] py_days_in_month_def)
  show ?thesis
    using v s
      subtract_months_clamps_day [of "\<lparr>year = 2024, month = 7, day = 31\<rparr>" 13
        "\<lparr>year = 2023, month = 6, day = 30\<rparr>"]
    by (simp add: py_days_in_month_def)
qed

text \<open>
  C5. The target year and month are the floor quotient and the remainder (plus one) of
  the absolute month index \<open>year * 12 + (month - 1) - months\<close>: every date the routine
  returns has them, and it returns one whenever the index lies between January of year
  1 and November of year 9999. January 15 of 2024 minus one month is December 15 of
  2023.
\<close>

theorem subtract_months_floor_division:
  "(valid_date anchor \<and> subtract_months anchor months = Inr r \<longrightarrow>
      year r = (year anchor * 12 + (month anchor - 1) - months) div 12 \<and>
      month r = (year anchor * 12 + (month anchor - 1) - months) mod 12 + 1) \<and>
   (valid_date anchor \<and>
      12 \<le> year anchor * 12 + (month anchor - 1) - months \<and>
      year anchor * 12 + (month anchor - 1) - months < 9999 * 12 + 11 \<longrightarrow>
      (\<exists>r'. subtract_months anchor months = Inr r')) \<and>
   subtract_months \<lparr>year = 2024, month = 1, day = 15\<rparr> 1
     = Inr \<lparr>year = 2023, month = 12, day = 15\<rparr>"
proof (intro conjI impI)
  assume h: "valid_date anchor \<and> subtract_months anchor months = Inr r"
  then have v: "valid_date anchor" and s: "subtract_months anchor months = Inr r"
    by simp_all
  note e = subtract_months_Inr(1) [OF v s]
  show "year r = (year anchor * 12 + (month anchor - 1) - months) div 12"
    by (subst e) simp
  show "month r = (year anchor * 12 + (month anchor - 1) - months) mod 12 + 1"
    by (subst e) simp
next
  let ?t = "year anchor * 12 + (month anchor - 1) - months"
  assume h: "valid_date anchor \<and> 12 \<le> ?t \<and> ?t < 9999 * 12 + 11"
  then have "1 \<le> ?t div 12 \<and> ?t div 12 \<le> 9999 \<and> \<not> (?t div 12 = 9999 \<and> ?t mod 12 + 1 = 12)"
    unfolding target_in_range by simp
  then show "\<exists>r'. subtract_months anchor months = Inr r'"
    using h by (simp add: subtract_months_eq Let_def)
next
  show "subtract_months \<lparr>year = 2024, month = 1, day = 15\<rparr> 1
     = Inr \<lparr>year = 2023, month = 12, day = 15\<rparr>"
    by (simp add: subtract_months_eq valid_date_def py_days_in_month_def py_is_leap_def)
qed

theorem subtract_months_floor_division_witness:
  "valid_date \<lparr>year = 2024, month = 2, day = 10\<rparr> \<and>
   subtract_months \<lparr>year = 2024, month = 2, day = 10\<rparr> 14
     = Inr \<lparr>year = 2022, month = 12, day = 10\<rparr> \<and>
   year \<lparr>year = 2022, month = 12, day = 10\<rparr> = (2024 * 12 + (2 - 1) - 14) div 12 \<and>
   month \<lparr>year = 2022, month = 12, day = 10\<rparr> = (2024 * 12 + (2 - 1) - 14) mod 12 + 1 \<and>
   (12::int) \<le> 2024 * 12 + (2 - 1) - 14 \<and>
   (2024::int) * 12 + (2 - 1) - 14 < 9999 * 12 + 11"
proof -
  have v: "valid_date \<lparr>year = 2024, month = 2, day = 10\<rparr>"
    by (simp add: valid_date_def py_days_in_month_def)
  have s: "subtract_months \<lparr>year = 2024, month = 2, day = 10\<rparr> 14
     = Inr \<lparr>year = 2022, month = 12, day = 10\<rparr>"
    by (simp add: subtract_months_eq [OF v] py_days_in_month_def)
  show ?thesis
    using v s
      subtract_months_floor_division [of "\<lparr>year = 2024, month = 2, day = 10\<rparr>" 14
        "\<lparr>year = 2022, month = 12, day = 10\<rparr>"]
    by simp
qed

text \<open>
  C7. Subtracting zero months is claimed to be the identity on every date. On a date in
  December 9999 the routine raises instead: \<^verbatim>\<open>_days_in_month(9999, 12)\<close> builds
  \<^verbatim>\<open>date(10000, 1, 1)\<close>, which the constructor rejects. Lemma
  \<open>subtract_zero_months\<close> above shows the identity on every other valid date.
\<close>

theorem subtract_zero_months_december_9999:
  "valid_date \<lparr>year = 9999, month = 12, day = 31\<rparr> \<and>
   subtract_months \<lparr>year = 9999, month = 12, day = 31\<rparr> 0 = Inl ValueError"
  by (simp add: subtract_months_eq valid_date_def py_days_in_month_def py_is_leap_def
      c_int_def)

section \<open>Selection, characterised\<close>

lemma within_window_filter:
  "within_window cutoff as_of accounts =
     filter (\<lambda>a. date_le cutoff (churned_at a) \<and> date_le (churned_at a) as_of) accounts"
  by (induction accounts) simp_all

lemma count_list_filter:
  "count_list (filter P xs) a = (if P a then count_list xs a else 0)"
  by (induction xs) auto

lemma date_le_refl: "date_le d d"
  by (simp add: date_le_def)

lemma cutoff_le_anchor:
  assumes v: "valid_date anchor" and m: "0 \<le> months"
    and s: "subtract_months anchor months = Inr cutoff"
  shows "date_le cutoff anchor"
proof -
  define t where "t = year anchor * 12 + (month anchor - 1) - months"
  have yc: "year cutoff = t div 12" and mc: "month cutoff = t mod 12 + 1"
    and dc: "day cutoff = min (day anchor) (py_days_in_month (t div 12) (t mod 12 + 1))"
    unfolding t_def by (subst subtract_months_Inr(1) [OF v s], simp)+
  have ma: "1 \<le> month anchor" "month anchor \<le> 12"
    using v by (simp_all add: valid_date_def)
  have le: "year cutoff * 12 + month cutoff \<le> year anchor * 12 + month anchor"
    unfolding yc mc using m by (simp add: t_def)
  have mcb: "1 \<le> month cutoff" "month cutoff \<le> 12"
    unfolding mc by simp_all
  show ?thesis
  proof (cases "months = 0")
    case True
    then have "year cutoff = year anchor" "month cutoff = month anchor"
      unfolding yc mc t_def using ma by simp_all
    moreover have "day cutoff \<le> day anchor" unfolding dc by simp
    ultimately show ?thesis by (simp add: date_le_def)
  next
    case False
    then have "year cutoff * 12 + month cutoff < year anchor * 12 + month anchor"
      unfolding yc mc using m by (simp add: t_def)
    then show ?thesis using ma mcb unfolding date_le_def by arith
  qed
qed

lemma select_recent_churns_eq:
  assumes "subtract_months anchor months = Inr cutoff"
  shows "select_recent_churns clock accounts months (Some anchor) =
           Inr (filter (\<lambda>a. date_le cutoff (churned_at a) \<and> date_le (churned_at a) anchor)
                  accounts)"
    and "select_recent_churns anchor accounts months None =
           Inr (filter (\<lambda>a. date_le cutoff (churned_at a) \<and> date_le (churned_at a) anchor)
                  accounts)"
  using assms by (simp_all add: select_recent_churns_def within_window_filter)

lemma select_recent_churns_raises:
  assumes "subtract_months anchor months = Inl e"
  shows "select_recent_churns clock accounts months (Some anchor) = Inl e"
    and "select_recent_churns anchor accounts months None = Inl e"
  using assms by (simp_all add: select_recent_churns_def)

section \<open>Claims about the selection\<close>

text \<open>
  C3, as stated, says that \<^verbatim>\<open>select_recent_churns\<close> returns the accounts of the window
  for every anchor and every window of zero or more months. It does not return when the
  window reaches before year 1: the cutoff is then no date, and the call raises. With the
  anchor 2024-06-15 and a window of 24300 months the routine asks the constructor for a
  date in year -1, and the call raises \<^verbatim>\<open>ValueError\<close>.
\<close>

theorem select_recent_churns_raises_counterexample:
  "valid_date \<lparr>year = 2024, month = 6, day = 15\<rparr> \<and>
   valid_date \<lparr>year = 2024, month = 5, day = 1\<rparr> \<and>
   select_recent_churns \<lparr>year = 2024, month = 6, day = 15\<rparr>
     [acct ''a'' 2024 5 1] 24300 (Some \<lparr>year = 2024, month = 6, day = 15\<rparr>) = Inl ValueError"
  by (simp add: select_recent_churns_def subtract_months_eq valid_date_def
      py_days_in_month_def py_is_leap_def c_int_def)

text \<open>
  C3, amended. For every sequence of accounts, every valid anchor and every window of
  zero or more months whose cutoff month lies between January of year 1 and November of
  year 9999, \<^verbatim>\<open>select_recent_churns\<close> returns exactly the accounts whose churn date
  \<open>d\<close> satisfies \<open>cutoff \<le> d \<le> anchor\<close>, in their order, where the cutoff is the result
  of \<^verbatim>\<open>_subtract_months\<close>; this holds when the anchor is passed and when it is read
  from the clock. With the anchor 2024-06-15 and a window of 3 months the cutoff is
  2024-03-15; accounts churned on 2024-03-15 and 2024-06-15 are selected, accounts churned
  on 2024-03-14 and 2024-06-16 are not.
\<close>

theorem select_recent_churns_window:
  "(valid_date anchor \<and> 0 \<le> months \<and>
      12 \<le> year anchor * 12 + (month anchor - 1) - months \<and>
      year anchor * 12 + (month anchor - 1) - months < 119999 \<longrightarrow>
      (\<exists>cutoff. subtract_months anchor months = Inr cutoff \<and>
         select_recent_churns clock accounts months (Some anchor) =
           Inr (filter (\<lambda>a. date_le cutoff (churned_at a) \<and> date_le (churned_at a) anchor)
                  accounts) \<and>
         select_recent_churns anchor accounts months None =
           Inr (filter (\<lambda>a. date_le cutoff (churned_at a) \<and> date_le (churned_at a) anchor)
                  accounts))) \<and>
   subtract_months \<lparr>year = 2024, month = 6, day = 15\<rparr> 3
     = Inr \<lparr>year = 2024, month = 3, day = 15\<rparr> \<and>
   select_recent_churns clock
     [acct ''a'' 2024 3 15, acct ''b'' 2024 3 14, acct ''c'' 2024 6 15, acct ''d'' 2024 6 16]
     3 (Some \<lparr>year = 2024, month = 6, day = 15\<rparr>)
     = Inr [acct ''a'' 2024 3 15, acct ''c'' 2024 6 15] \<and>
   select_recent_churns \<lparr>year = 2024, month = 6, day = 15\<rparr>
     [acct ''a'' 2024 3 15, acct ''b'' 2024 3 14, acct ''c'' 2024 6 15, acct ''d'' 2024 6 16]
     3 None
     = Inr [acct ''a'' 2024 3 15, acct ''c'' 2024 6 15]"
proof (intro conjI impI)
  let ?t = "year anchor * 12 + (month anchor - 1) - months"
  assume h: "valid_date anchor \<and> 0 \<le> months \<and> 12 \<le> ?t \<and> ?t < 119999"
  then have "1 \<le> ?t div 12 \<and> ?t div 12 \<le> 9999 \<and> \<not> (?t div 12 = 9999 \<and> ?t mod 12 + 1 = 12)"
    unfolding target_in_range by simp
  then obtain cutoff where c: "subtract_months anchor months = Inr cutoff"
    using h by (simp add: subtract_months_eq Let_def)
  show "\<exists>cutoff. subtract_months anchor months = Inr cutoff \<and>
         select_recent_churns clock accounts months (Some anchor) =
           Inr (filter (\<lambda>a. date_le cutoff (churned_at a) \<and> date_le (churned_at a) anchor)
                  accounts) \<and>
         select_recent_churns anchor accounts months None =
           Inr (filter (\<lambda>a. date_le cutoff (churned_at a) \<and> date_le (churned_at a) anchor)
                  accounts)"
    using c select_recent_churns_eq [OF c] by blast
next
  have v: "valid_date \<lparr>year = 2024, month = 6, day = 15\<rparr>"
    by (simp add: valid_date_def py_days_in_month_def)
  show c: "subtract_months \<lparr>year = 2024, month = 6, day = 15\<rparr> 3
     = Inr \<lparr>year = 2024, month = 3, day = 15\<rparr>"
    by (simp add: subtract_months_eq [OF v] py_days_in_month_def)
  show "select_recent_churns clock
     [acct ''a'' 2024 3 15, acct ''b'' 2024 3 14, acct ''c'' 2024 6 15, acct ''d'' 2024 6 16]
     3 (Some \<lparr>year = 2024, month = 6, day = 15\<rparr>)
     = Inr [acct ''a'' 2024 3 15, acct ''c'' 2024 6 15]"
    unfolding select_recent_churns_eq(1) [OF c]
    by (simp add: acct_def date_le_def)
  show "select_recent_churns \<lparr>year = 2024, month = 6, day = 15\<rparr>
     [acct ''a'' 2024 3 15, acct ''b'' 2024 3 14, acct ''c'' 2024 6 15, acct ''d'' 2024 6 16]
     3 None
     = Inr [acct ''a'' 2024 3 15, acct ''c'' 2024 6 15]"
    unfolding select_recent_churns_eq(2) [OF c]
    by (simp add: acct_def date_le_def)
qed

theorem select_recent_churns_window_witness:
  "valid_date \<lparr>year = 2024, month = 6, day = 15\<rparr> \<and> (0::int) \<le> 3 \<and>
   (12::int) \<le> 2024 * 12 + (6 - 1) - 3 \<and> (2024::int) * 12 + (6 - 1) - 3 < 119999 \<and>
   select_recent_churns \<lparr>year = 2024, month = 6, day = 15\<rparr>
     [acct ''a'' 2024 5 1, acct ''b'' 2023 5 1] 3 None = Inr [acct ''a'' 2024 5 1] \<and>
   select_recent_churns \<lparr>year = 2020, month = 1, day = 1\<rparr>
     [acct ''a'' 2024 5 1, acct ''b'' 2023 5 1] 3 (Some \<lparr>year = 2024, month = 6, day = 15\<rparr>)
     = Inr [acct ''a'' 2024 5 1]"
proof -
  have v: "valid_date \<lparr>year = 2024, month = 6, day = 15\<rparr>"
    by (simp add: valid_date_def py_days_in_month_def)
  have c: "subtract_months \<lparr>year = 2024, month = 6, day = 15\<rparr> 3
     = Inr \<lparr>year = 2024, month = 3, day = 15\<rparr>"
    by (simp add: subtract_months_eq [OF v] py_days_in_month_def)
  let ?P = "\<lambda>a. date_le \<lparr>year = 2024, month = 3, day = 15\<rparr> (churned_at a) \<and>
               date_le (churned_at a) \<lparr>year = 2024, month = 6, day = 15\<rparr>"
  have "select_recent_churns \<lparr>year = 2020, month = 1, day = 1\<rparr>
          [acct ''a'' 2024 5 1, acct ''b'' 2023 5 1] 3
          (Some \<lparr>year = 2024, month = 6, day = 15\<rparr>)
          = Inr (filter ?P [acct ''a'' 2024 5 1, acct ''b'' 2023 5 1]) \<and>
        select_recent_churns \<lparr>year = 2024, month = 6, day = 15\<rparr>
          [acct ''a'' 2024 5 1, acct ''b'' 2023 5 1] 3 None
          = Inr (filter ?P [acct ''a'' 2024 5 1, acct ''b'' 2023 5 1])"
    using v
      select_recent_churns_window [of "\<lparr>year = 2024, month = 6, day = 15\<rparr>" 3
        "\<lparr>year = 2020, month = 1, day = 1\<rparr>" "[acct ''a'' 2024 5 1, acct ''b'' 2023 5 1]"]
    unfolding c by auto
  then show ?thesis
    using v by (simp add: acct_def date_le_def)
qed

text \<open>
  C6, as stated, says that for every anchor and every window of zero or more months the
  result is an ordered subsequence of the input in which no account is dropped. When
  the window reaches before year 1 there is no result: with the clock at 2024-06-15, no
  anchor passed and a window of 30000 months, the call raises \<^verbatim>\<open>ValueError\<close> on two
  accounts churned within the last three months.
\<close>

theorem select_recent_churns_no_result_counterexample:
  "valid_date \<lparr>year = 2024, month = 6, day = 15\<rparr> \<and>
   select_recent_churns \<lparr>year = 2024, month = 6, day = 15\<rparr>
     [acct ''A'' 2024 5 1, acct ''B'' 2024 4 1] 30000 None = Inl ValueError"
  by (simp add: select_recent_churns_def subtract_months_eq valid_date_def
      py_days_in_month_def py_is_leap_def c_int_def)

text \<open>
  C6, amended. The selection is a stable filter. For every sequence of accounts, every
  valid anchor and every window of zero or more months whose cutoff month lies between
  January of year 1 and November of year 9999, the call returns, whether the anchor is
  passed or read from the clock, and in both cases the result is the same subsequence of
  the input (the order is kept); every account in the window occurs in the result as
  often as in the input, every other account not at all, so nothing is duplicated or
  dropped; and an account churned exactly on the cutoff or on the anchor is kept. Two
  accounts churned on 2024-05-01 and 2024-04-01, both in the window, come back in the
  order given.
\<close>

theorem select_recent_churns_stable:
  "(valid_date anchor \<and> 0 \<le> months \<and>
      12 \<le> year anchor * 12 + (month anchor - 1) - months \<and>
      year anchor * 12 + (month anchor - 1) - months < 119999 \<longrightarrow>
      (\<exists>cutoff r. subtract_months anchor months = Inr cutoff \<and>
         select_recent_churns clock accounts months (Some anchor) = Inr r \<and>
         select_recent_churns anchor accounts months None = Inr r \<and>
         subseq r accounts \<and>
         (\<forall>a. count_list r a =
            (if date_le cutoff (churned_at a) \<and> date_le (churned_at a) anchor
             then count_list accounts a else 0)) \<and>
         (\<forall>a. churned_at a = cutoff \<or> churned_at a = anchor \<longrightarrow>
            count_list r a = count_list accounts a))) \<and>
   select_recent_churns clock [acct ''A'' 2024 5 1, acct ''B'' 2024 4 1] 3
     (Some \<lparr>year = 2024, month = 6, day = 15\<rparr>)
     = Inr [acct ''A'' 2024 5 1, acct ''B'' 2024 4 1] \<and>
   select_recent_churns \<lparr>year = 2024, month = 6, day = 15\<rparr>
     [acct ''A'' 2024 5 1, acct ''B'' 2024 4 1] 3 None
     = Inr [acct ''A'' 2024 5 1, acct ''B'' 2024 4 1]"
proof (intro conjI impI)
  let ?t = "year anchor * 12 + (month anchor - 1) - months"
  assume h: "valid_date anchor \<and> 0 \<le> months \<and> 12 \<le> ?t \<and> ?t < 119999"
  then have "1 \<le> ?t div 12 \<and> ?t div 12 \<le> 9999 \<and> \<not> (?t div 12 = 9999 \<and> ?t mod 12 + 1 = 12)"
    unfolding target_in_range by simp
  then obtain cutoff where c: "subtract_months anchor months = Inr cutoff"
    using h by (simp add: subtract_months_eq Let_def)
  let ?P = "\<lambda>a. date_le cutoff (churned_at a) \<and> date_le (churned_at a) anchor"
  have le: "date_le cutoff anchor"
    using h c cutoff_le_anchor by blast
  have 1: "select_recent_churns clock accounts months (Some anchor) = Inr (filter ?P accounts)"
    by (rule select_recent_churns_eq(1) [OF c])
  have 2: "select_recent_churns anchor accounts months None = Inr (filter ?P accounts)"
    by (rule select_recent_churns_eq(2) [OF c])
  have 3: "subseq (filter ?P accounts) accounts"
    by simp
  have 4: "\<forall>a. count_list (filter ?P accounts) a = (if ?P a then count_list accounts a else 0)"
    by (simp add: count_list_filter)
  have 5: "\<forall>a. churned_at a = cutoff \<or> churned_at a = anchor \<longrightarrow>
            count_list (filter ?P accounts) a = count_list accounts a"
    using le by (auto simp: count_list_filter date_le_refl)
  show "\<exists>cutoff r. subtract_months anchor months = Inr cutoff \<and>
         select_recent_churns clock accounts months (Some anchor) = Inr r \<and>
         select_recent_churns anchor accounts months None = Inr r \<and>
         subseq r accounts \<and>
         (\<forall>a. count_list r a =
            (if date_le cutoff (churned_at a) \<and> date_le (churned_at a) anchor
             then count_list accounts a else 0)) \<and>
         (\<forall>a. churned_at a = cutoff \<or> churned_at a = anchor \<longrightarrow>
            count_list r a = count_list accounts a)"
    using c 1 2 3 4 5 by blast
next
  have v: "valid_date \<lparr>year = 2024, month = 6, day = 15\<rparr>"
    by (simp add: valid_date_def py_days_in_month_def)
  have c: "subtract_months \<lparr>year = 2024, month = 6, day = 15\<rparr> 3
     = Inr \<lparr>year = 2024, month = 3, day = 15\<rparr>"
    by (simp add: subtract_months_eq [OF v] py_days_in_month_def)
  show "select_recent_churns clock [acct ''A'' 2024 5 1, acct ''B'' 2024 4 1] 3
     (Some \<lparr>year = 2024, month = 6, day = 15\<rparr>)
     = Inr [acct ''A'' 2024 5 1, acct ''B'' 2024 4 1]"
    unfolding select_recent_churns_eq(1) [OF c]
    by (simp add: acct_def date_le_def)
  show "select_recent_churns \<lparr>year = 2024, month = 6, day = 15\<rparr>
     [acct ''A'' 2024 5 1, acct ''B'' 2024 4 1] 3 None
     = Inr [acct ''A'' 2024 5 1, acct ''B'' 2024 4 1]"
    unfolding select_recent_churns_eq(2) [OF c]
    by (simp add: acct_def date_le_def)
qed

theorem select_recent_churns_stable_witness:
  "valid_date \<lparr>year = 2024, month = 6, day = 15\<rparr> \<and> (0::int) \<le> 3 \<and>
   (12::int) \<le> 2024 * 12 + (6 - 1) - 3 \<and> (2024::int) * 12 + (6 - 1) - 3 < 119999 \<and>
   (\<exists>r. select_recent_churns \<lparr>year = 2024, month = 6, day = 15\<rparr>
           [acct ''c'' 2024 6 15, acct ''b'' 2024 3 14, acct ''a'' 2024 3 15, acct ''c'' 2024 6 15]
           3 None = Inr r \<and>
        select_recent_churns \<lparr>year = 2024, month = 1, day = 1\<rparr>
           [acct ''c'' 2024 6 15, acct ''b'' 2024 3 14, acct ''a'' 2024 3 15, acct ''c'' 2024 6 15]
           3 (Some \<lparr>year = 2024, month = 6, day = 15\<rparr>) = Inr r \<and>
        subseq r [acct ''c'' 2024 6 15, acct ''b'' 2024 3 14, acct ''a'' 2024 3 15,
                  acct ''c'' 2024 6 15] \<and>
        count_list r (acct ''c'' 2024 6 15) = 2 \<and>
        count_list r (acct ''a'' 2024 3 15) = 1 \<and>
        count_list r (acct ''b'' 2024 3 14) = 0)"
proof -
  let ?L = "[acct ''c'' 2024 6 15, acct ''b'' 2024 3 14, acct ''a'' 2024 3 15,
             acct ''c'' 2024 6 15]"
  have v: "valid_date \<lparr>year = 2024, month = 6, day = 15\<rparr>"
    by (simp add: valid_date_def py_days_in_month_def)
  have c: "subtract_months \<lparr>year = 2024, month = 6, day = 15\<rparr> 3
     = Inr \<lparr>year = 2024, month = 3, day = 15\<rparr>"
    by (simp add: subtract_months_eq [OF v] py_days_in_month_def)
  obtain r where r1: "select_recent_churns \<lparr>year = 2024, month = 6, day = 15\<rparr> ?L 3 None = Inr r"
    and r2: "select_recent_churns \<lparr>year = 2024, month = 1, day = 1\<rparr> ?L 3
               (Some \<lparr>year = 2024, month = 6, day = 15\<rparr>) = Inr r"
    and s: "subseq r ?L"
    and n: "\<forall>a. count_list r a =
            (if date_le \<lparr>year = 2024, month = 3, day = 15\<rparr> (churned_at a) \<and>
                date_le (churned_at a) \<lparr>year = 2024, month = 6, day = 15\<rparr>
             then count_list ?L a else 0)"
    using v c
      select_recent_churns_stable [of "\<lparr>year = 2024, month = 6, day = 15\<rparr>" 3
        "\<lparr>year = 2024, month = 1, day = 1\<rparr>" ?L]
    by auto
  have "count_list r (acct ''c'' 2024 6 15) = 2"
    and "count_list r (acct ''a'' 2024 3 15) = 1"
    and "count_list r (acct ''b'' 2024 3 14) = 0"
    by (simp_all add: n acct_def date_le_def)
  then show ?thesis using v r1 r2 s by (auto intro!: exI [of _ r])
qed

section \<open>The review plan, characterised\<close>

lemma review_loop_append:
  "review_loop accounts review_items = review_items @ map review_item accounts"
  by (induction accounts arbitrary: review_items) simp_all

lemma build_review_plan_map: "build_review_plan accounts = map review_item accounts"
  by (simp add: build_review_plan_def review_loop_append)

lemma build_review_plan_nth:
  "i < length accounts \<Longrightarrow> build_review_plan accounts ! i = review_item (accounts ! i)"
  by (simp add: build_review_plan_map)

lemma review_item_account: "account (review_item a) = a"
  by (simp add: review_item_def Let_def)

lemma review_item_notes:
  "review_notes (review_item a) =
     (case churn_reason a of
        None \<Rightarrow> ''Confirm churn reason and validate offboarding completion.''
      | Some reason \<Rightarrow>
          if reason = [] then ''Confirm churn reason and validate offboarding completion.''
          else ''Review churn reason: '' @ reason @ ''.'')"
  by (simp add: review_item_def truthy_def Let_def split: option.splits)

lemma review_item_action:
  "next_action (review_item a) =
     (case owner a of
        None \<Rightarrow> ''Schedule follow-up with account owner.''
      | Some name \<Rightarrow>
          if name = [] then ''Schedule follow-up with account owner.''
          else ''Schedule follow-up with '' @ name @ ''.'')"
  by (simp add: review_item_def truthy_def Let_def split: option.splits)

text \<open>The loop over the store, in closed form.\<close>

lemma lookup_append: "lookup s r = Some x \<Longrightarrow> lookup (s @ t) r = Some x"
  by (auto simp: lookup_def nth_append split: if_splits)

lemma review_loop_store_run:
  assumes "map (lookup s) refs = map (\<lambda>a. Some (AccountObject a)) accs"
  shows "review_loop_store s refs review_items =
           Inr (review_items @ [length s ..< length s + length refs],
                s @ new_items refs accs)"
  using assms
proof (induction refs arbitrary: s review_items accs)
  case Nil
  then show ?case by (simp add: new_items_def)
next
  case (Cons r refs)
  then obtain a accs' where accs: "accs = a # accs'"
    and r: "lookup s r = Some (AccountObject a)"
    and rest: "map (lookup s) refs = map (\<lambda>a. Some (AccountObject a)) accs'"
    by (cases accs) auto
  let ?s = "s @ [ReviewItemObject r (review_notes (review_item a)) (next_action (review_item a))]"
  have "map (lookup ?s) refs = map (\<lambda>a. Some (AccountObject a)) accs'"
  proof (rule nth_equalityI)
    show "length (map (lookup ?s) refs) = length (map (\<lambda>a. Some (AccountObject a)) accs')"
      using rest by (metis length_map)
  next
    fix i assume i: "i < length (map (lookup ?s) refs)"
    then have "lookup s (refs ! i) = Some (AccountObject (accs' ! i))"
      using rest by (metis length_map nth_map)
    then show "map (lookup ?s) refs ! i = map (\<lambda>a. Some (AccountObject a)) accs' ! i"
      using i rest by (metis length_map lookup_append nth_map)
  qed
  from Cons.IH [OF this]
  have "review_loop_store ?s refs (review_items @ [length s]) =
      Inr ((review_items @ [length s]) @ [length ?s ..< length ?s + length refs],
           ?s @ new_items refs accs')" .
  moreover have "(review_items @ [length s]) @ [length ?s ..< length ?s + length refs] =
      review_items @ [length s ..< length s + length (r # refs)]"
  proof -
    have "[length s ..< length s + length (r # refs)] =
        length s # [Suc (length s) ..< Suc (length s) + length refs]"
      by (subst upt_rec) simp
    then show ?thesis by simp
  qed
  moreover have "?s @ new_items refs accs' = s @ new_items (r # refs) accs"
    by (simp add: new_items_def accs)
  ultimately show ?case using r by simp
qed


lemma lookup_new_item:
  assumes "i < length refs" and "length refs = length accs"
  shows "lookup (s @ new_items refs accs) (length s + i) =
           Some (ReviewItemObject (refs ! i) (review_notes (review_item (accs ! i)))
                   (next_action (review_item (accs ! i))))"
  using assms by (simp add: lookup_def new_items_def nth_append)

lemma review_item_fields:
  "\<lparr>account = a, review_notes = review_notes (review_item a),
    next_action = next_action (review_item a)\<rparr> = review_item a"
  by (simp add: review_item_def Let_def)

lemma read_new_items:
  assumes "map (lookup s) refs = map (\<lambda>a. Some (AccountObject a)) accs"
  shows "map (read_item (s @ new_items refs accs)) [length s ..< length s + length refs] =
           map Some (build_review_plan accs)"
proof (rule nth_equalityI)
  have len: "length refs = length accs"
    using assms by (metis length_map)
  show "length (map (read_item (s @ new_items refs accs)) [length s ..< length s + length refs])
      = length (map Some (build_review_plan accs))"
    using len by (simp add: build_review_plan_map)
  fix i
  assume "i < length (map (read_item (s @ new_items refs accs))
                 [length s ..< length s + length refs])"
  then have i: "i < length refs" by simp
  have "lookup s (refs ! i) = Some (AccountObject (accs ! i))"
    using assms i len by (metis length_map nth_map)
  then have a: "lookup (s @ new_items refs accs) (refs ! i) = Some (AccountObject (accs ! i))"
    by (rule lookup_append)
  have "read_item (s @ new_items refs accs) (length s + i) = Some (review_item (accs ! i))"
    by (simp add: read_item_def lookup_new_item [OF i len] a review_item_fields)
  then show "map (read_item (s @ new_items refs accs)) [length s ..< length s + length refs] ! i
      = map Some (build_review_plan accs) ! i"
    using i len by (simp add: build_review_plan_map)
qed

lemma build_review_plan_store_not_account:
  "build_review_plan_store [AccountObject a, OtherObject] [0, 1] = Inl AttributeError"
  by (simp add: build_review_plan_store_def lookup_def)

section \<open>Claims about the review plan\<close>

text \<open>
  C4. \<^verbatim>\<open>build_review_plan\<close> produces exactly one review item per account, in the order
  of the input, and the item at each position carries the account at that position. For
  an account of the data model (a reason or owner is a non-empty string or absent), the
  notes are \<^verbatim>\<open>"Review churn reason: {reason}."\<close> when the reason is present and the fixed
  text when it is absent, and the action is \<^verbatim>\<open>"Schedule follow-up with {owner}."\<close> when
  the owner is present and the fixed text when it is absent. An account without reason
  and owner gets the two fixed texts; an account with reason Pricing and owner Jane gets
  \<^verbatim>\<open>"Review churn reason: Pricing."\<close> and \<^verbatim>\<open>"Schedule follow-up with Jane."\<close>.
\<close>

theorem build_review_plan_items:
  "length (build_review_plan accounts) = length accounts \<and>
   (i < length accounts \<longrightarrow>
      account (build_review_plan accounts ! i) = accounts ! i \<and>
      (churn_reason (accounts ! i) \<noteq> Some [] \<longrightarrow>
         review_notes (build_review_plan accounts ! i) =
           (case churn_reason (accounts ! i) of
              Some reason \<Rightarrow> ''Review churn reason: '' @ reason @ ''.''
            | None \<Rightarrow> ''Confirm churn reason and validate offboarding completion.'')) \<and>
      (owner (accounts ! i) \<noteq> Some [] \<longrightarrow>
         next_action (build_review_plan accounts ! i) =
           (case owner (accounts ! i) of
              Some name \<Rightarrow> ''Schedule follow-up with '' @ name @ ''.''
            | None \<Rightarrow> ''Schedule follow-up with account owner.''))) \<and>
   build_review_plan
     [acct ''a1'' 2024 5 1,
      (acct ''a2'' 2024 4 1)\<lparr>churn_reason := Some ''Pricing'', owner := Some ''Jane''\<rparr>] =
     [\<lparr>account = acct ''a1'' 2024 5 1,
       review_notes = ''Confirm churn reason and validate offboarding completion.'',
       next_action = ''Schedule follow-up with account owner.''\<rparr>,
      \<lparr>account = (acct ''a2'' 2024 4 1)\<lparr>churn_reason := Some ''Pricing'', owner := Some ''Jane''\<rparr>,
       review_notes = ''Review churn reason: Pricing.'',
       next_action = ''Schedule follow-up with Jane.''\<rparr>]"
proof (intro conjI impI)
  show "length (build_review_plan accounts) = length accounts"
    by (simp add: build_review_plan_map)
next
  assume i: "i < length accounts"
  show "account (build_review_plan accounts ! i) = accounts ! i"
    by (simp add: build_review_plan_nth [OF i] review_item_account)
  show "review_notes (build_review_plan accounts ! i) =
           (case churn_reason (accounts ! i) of
              Some reason \<Rightarrow> ''Review churn reason: '' @ reason @ ''.''
            | None \<Rightarrow> ''Confirm churn reason and validate offboarding completion.'')"
    if "churn_reason (accounts ! i) \<noteq> Some []"
    using that by (simp add: build_review_plan_nth [OF i] review_item_notes split: option.splits)
  show "next_action (build_review_plan accounts ! i) =
           (case owner (accounts ! i) of
              Some name \<Rightarrow> ''Schedule follow-up with '' @ name @ ''.''
            | None \<Rightarrow> ''Schedule follow-up with account owner.'')"
    if "owner (accounts ! i) \<noteq> Some []"
    using that by (simp add: build_review_plan_nth [OF i] review_item_action split: option.splits)
next
  show "build_review_plan
     [acct ''a1'' 2024 5 1,
      (acct ''a2'' 2024 4 1)\<lparr>churn_reason := Some ''Pricing'', owner := Some ''Jane''\<rparr>] =
     [\<lparr>account = acct ''a1'' 2024 5 1,
       review_notes = ''Confirm churn reason and validate offboarding completion.'',
       next_action = ''Schedule follow-up with account owner.''\<rparr>,
      \<lparr>account = (acct ''a2'' 2024 4 1)\<lparr>churn_reason := Some ''Pricing'', owner := Some ''Jane''\<rparr>,
       review_notes = ''Review churn reason: Pricing.'',
       next_action = ''Schedule follow-up with Jane.''\<rparr>]"
    by (simp add: build_review_plan_def review_item_def truthy_def acct_def)
qed

theorem build_review_plan_items_witness:
  "(1::nat) < length [acct ''x'' 2024 1 2, (acct ''y'' 2024 1 3)\<lparr>churn_reason := Some ''Budget''\<rparr>] \<and>
   churn_reason ([acct ''x'' 2024 1 2, (acct ''y'' 2024 1 3)\<lparr>churn_reason := Some ''Budget''\<rparr>] ! 1)
     \<noteq> Some [] \<and>
   owner ([acct ''x'' 2024 1 2, (acct ''y'' 2024 1 3)\<lparr>churn_reason := Some ''Budget''\<rparr>] ! 1)
     \<noteq> Some [] \<and>
   review_notes
     (build_review_plan
        [acct ''x'' 2024 1 2, (acct ''y'' 2024 1 3)\<lparr>churn_reason := Some ''Budget''\<rparr>] ! 1)
     = ''Review churn reason: Budget.'' \<and>
   next_action
     (build_review_plan
        [acct ''x'' 2024 1 2, (acct ''y'' 2024 1 3)\<lparr>churn_reason := Some ''Budget''\<rparr>] ! 1)
     = ''Schedule follow-up with account owner.''"
  using build_review_plan_items
    [of "[acct ''x'' 2024 1 2, (acct ''y'' 2024 1 3)\<lparr>churn_reason := Some ''Budget''\<rparr>]" 1]
  by (simp add: acct_def)

text \<open>
  C9. \<^verbatim>\<open>build_review_plan\<close> is total and free of side effects. For every store and
  every finite sequence of references that each point to an account, the loop returns
  and reaches no error branch; every object that was in the store before the call is
  still there unchanged, the input accounts among them, and the references of the input
  still point to the same accounts; the only new objects are the review items, one per
  input reference, and read back in order they are the items \<open>build_review_plan\<close> gives
  for those accounts. (On an object that is not an account the loop does raise:
  lemma \<open>build_review_plan_store_not_account\<close>.)
\<close>

theorem build_review_plan_store_total:
  "map (lookup s) accounts = map (\<lambda>a. Some (AccountObject a)) values \<longrightarrow>
     (\<exists>review_items s'.
        build_review_plan_store s accounts = Inr (review_items, s') \<and>
        take (length s) s' = s \<and>
        map (lookup s') accounts = map (\<lambda>a. Some (AccountObject a)) values \<and>
        length review_items = length accounts \<and>
        length s' = length s + length accounts \<and>
        map (read_item s') review_items = map Some (build_review_plan values))"
proof
  assume h: "map (lookup s) accounts = map (\<lambda>a. Some (AccountObject a)) values"
  have len: "length accounts = length values"
    using h by (metis length_map)
  let ?items = "[length s ..< length s + length accounts]"
  let ?s = "s @ new_items accounts values"
  have run: "build_review_plan_store s accounts = Inr (?items, ?s)"
    unfolding build_review_plan_store_def using review_loop_store_run [OF h, of "[]"] by simp
  have kept: "map (lookup ?s) accounts = map (\<lambda>a. Some (AccountObject a)) values"
  proof (rule nth_equalityI)
    show "length (map (lookup ?s) accounts) = length (map (\<lambda>a. Some (AccountObject a)) values)"
      using len by simp
    fix i assume i: "i < length (map (lookup ?s) accounts)"
    then have "lookup s (accounts ! i) = Some (AccountObject (values ! i))"
      using h len by (metis length_map nth_map)
    then show "map (lookup ?s) accounts ! i = map (\<lambda>a. Some (AccountObject a)) values ! i"
      using i len by (simp add: lookup_append)
  qed
  have "take (length s) ?s = s" by simp
  moreover have "length ?items = length accounts" by simp
  moreover have "length ?s = length s + length accounts"
    using len by (simp add: new_items_def)
  moreover note run kept read_new_items [OF h]
  ultimately show "\<exists>review_items s'.
        build_review_plan_store s accounts = Inr (review_items, s') \<and>
        take (length s) s' = s \<and>
        map (lookup s') accounts = map (\<lambda>a. Some (AccountObject a)) values \<and>
        length review_items = length accounts \<and>
        length s' = length s + length accounts \<and>
        map (read_item s') review_items = map Some (build_review_plan values)"
    by blast
qed

theorem build_review_plan_store_total_witness:
  "map (lookup [AccountObject (acct ''a1'' 2024 5 1),
                AccountObject ((acct ''a2'' 2024 4 1)\<lparr>churn_reason := Some ''Pricing''\<rparr>)])
      [1, 0, 1]
     = map (\<lambda>a. Some (AccountObject a))
         [(acct ''a2'' 2024 4 1)\<lparr>churn_reason := Some ''Pricing''\<rparr>, acct ''a1'' 2024 5 1,
          (acct ''a2'' 2024 4 1)\<lparr>churn_reason := Some ''Pricing''\<rparr>] \<and>
   build_review_plan_store
     [AccountObject (acct ''a1'' 2024 5 1),
      AccountObject ((acct ''a2'' 2024 4 1)\<lparr>churn_reason := Some ''Pricing''\<rparr>)]
     [1, 0, 1]
     = Inr ([2, 3, 4],
        [AccountObject (acct ''a1'' 2024 5 1),
         AccountObject ((acct ''a2'' 2024 4 1)\<lparr>churn_reason := Some ''Pricing''\<rparr>),
         ReviewItemObject 1 ''Review churn reason: Pricing.''
           ''Schedule follow-up with account owner.'',
         ReviewItemObject 0 ''Confirm churn reason and validate offboarding completion.''
           ''Schedule follow-up with account owner.'',
         ReviewItemObject 1 ''Review churn reason: Pricing.''
           ''Schedule follow-up with account owner.''])"
proof -
  let ?s = "[AccountObject (acct ''a1'' 2024 5 1),
             AccountObject ((acct ''a2'' 2024 4 1)\<lparr>churn_reason := Some ''Pricing''\<rparr>)]"
  let ?v = "[(acct ''a2'' 2024 4 1)\<lparr>churn_reason := Some ''Pricing''\<rparr>, acct ''a1'' 2024 5 1,
          (acct ''a2'' 2024 4 1)\<lparr>churn_reason := Some ''Pricing''\<rparr>]"
  have h: "map (lookup ?s) [1, 0, 1] = map (\<lambda>a. Some (AccountObject a)) ?v"
    by (simp add: lookup_def)
  obtain review_items s' where
    "build_review_plan_store ?s [1, 0, 1] = Inr (review_items, s')"
    using build_review_plan_store_total [of ?s "[1, 0, 1]" ?v] h by blast
  moreover have "build_review_plan_store ?s [1, 0, 1]
     = Inr ([2, 3, 4],
        ?s @ [ReviewItemObject 1 ''Review churn reason: Pricing.''
           ''Schedule follow-up with account owner.'',
         ReviewItemObject 0 ''Confirm churn reason and validate offboarding completion.''
           ''Schedule follow-up with account owner.'',
         ReviewItemObject 1 ''Review churn reason: Pricing.''
           ''Schedule follow-up with account owner.''])"
    by (simp add: build_review_plan_store_def lookup_def review_item_def truthy_def acct_def)
  ultimately show ?thesis using h by simp
qed

text \<open>
  C10. Presence is decided by truth value: an account whose reason is the empty string
  gets the fixed notes, the same as if the reason were absent, and an account whose owner
  is the empty string gets the fixed action, the same as if the owner were absent.
\<close>

theorem build_review_plan_empty_string:
  "i < length accounts \<longrightarrow>
     (churn_reason (accounts ! i) = Some [] \<longrightarrow>
        review_notes (build_review_plan accounts ! i) =
          ''Confirm churn reason and validate offboarding completion.'' \<and>
        review_notes (build_review_plan accounts ! i) =
          review_notes
            (build_review_plan (accounts[i := (accounts ! i)\<lparr>churn_reason := None\<rparr>]) ! i)) \<and>
     (owner (accounts ! i) = Some [] \<longrightarrow>
        next_action (build_review_plan accounts ! i) =
          ''Schedule follow-up with account owner.'' \<and>
        next_action (build_review_plan accounts ! i) =
          next_action
            (build_review_plan (accounts[i := (accounts ! i)\<lparr>owner := None\<rparr>]) ! i))"
  by (simp add: build_review_plan_map review_item_notes review_item_action)

theorem build_review_plan_empty_string_witness:
  "(0::nat) < length [(acct ''z'' 2024 2 2)\<lparr>churn_reason := Some [], owner := Some []\<rparr>] \<and>
   churn_reason ([(acct ''z'' 2024 2 2)\<lparr>churn_reason := Some [], owner := Some []\<rparr>] ! 0)
     = Some [] \<and>
   owner ([(acct ''z'' 2024 2 2)\<lparr>churn_reason := Some [], owner := Some []\<rparr>] ! 0) = Some [] \<and>
   review_notes
     (build_review_plan [(acct ''z'' 2024 2 2)\<lparr>churn_reason := Some [], owner := Some []\<rparr>] ! 0)
     = ''Confirm churn reason and validate offboarding completion.'' \<and>
   next_action
     (build_review_plan [(acct ''z'' 2024 2 2)\<lparr>churn_reason := Some [], owner := Some []\<rparr>] ! 0)
     = ''Schedule follow-up with account owner.''"
  using build_review_plan_empty_string
    [of 0 "[(acct ''z'' 2024 2 2)\<lparr>churn_reason := Some [], owner := Some []\<rparr>]"]
  by simp

section \<open>Dispatch, characterised\<close>

lemma lower_char_code:
  "(of_char (lower_char c) :: nat) =
     (if (65 \<le> (of_char c :: nat) \<and> (of_char c :: nat) \<le> 90) \<or>
         (192 \<le> (of_char c :: nat) \<and> (of_char c :: nat) \<le> 222 \<and> (of_char c :: nat) \<noteq> 215)
      then of_char c + 32 else of_char c)"
  by (simp add: lower_char_def Let_def take_bit_eq_mod)

lemma char_eq_code: "(a = b) = ((of_char a :: nat) = of_char b)"
  by simp

lemma lower_char_dot: "(lower_char c = CHR ''.'') = (c = CHR ''.'')"
  unfolding char_eq_code [of _ "CHR ''.''"] lower_char_code by auto

lemma lower_char_c: "(lower_char x = CHR ''c'') = (x = CHR ''c'' \<or> x = CHR ''C'')"
  unfolding char_eq_code [of _ "CHR ''c''"] char_eq_code [of _ "CHR ''C''"] lower_char_code
  by auto

lemma lower_char_s: "(lower_char x = CHR ''s'') = (x = CHR ''s'' \<or> x = CHR ''S'')"
  unfolding char_eq_code [of _ "CHR ''s''"] char_eq_code [of _ "CHR ''S''"] lower_char_code
  by auto

lemma lower_char_v: "(lower_char x = CHR ''v'') = (x = CHR ''v'' \<or> x = CHR ''V'')"
  unfolding char_eq_code [of _ "CHR ''v''"] char_eq_code [of _ "CHR ''V''"] lower_char_code
  by auto

lemma lower_char_j: "(lower_char x = CHR ''j'') = (x = CHR ''j'' \<or> x = CHR ''J'')"
  unfolding char_eq_code [of _ "CHR ''j''"] char_eq_code [of _ "CHR ''J''"] lower_char_code
  by auto

lemma lower_char_o: "(lower_char x = CHR ''o'') = (x = CHR ''o'' \<or> x = CHR ''O'')"
  unfolding char_eq_code [of _ "CHR ''o''"] char_eq_code [of _ "CHR ''O''"] lower_char_code
  by auto

lemma lower_char_n: "(lower_char x = CHR ''n'') = (x = CHR ''n'' \<or> x = CHR ''N'')"
  unfolding char_eq_code [of _ "CHR ''n''"] char_eq_code [of _ "CHR ''N''"] lower_char_code
  by auto

lemma lower_csv:
  "(lower s = ''.csv'') =
     (\<exists>c1 c2 c3. s = [CHR ''.'', c1, c2, c3] \<and> (c1 = CHR ''c'' \<or> c1 = CHR ''C'') \<and>
        (c2 = CHR ''s'' \<or> c2 = CHR ''S'') \<and> (c3 = CHR ''v'' \<or> c3 = CHR ''V''))"
proof
  assume h: "lower s = ''.csv''"
  then obtain c0 c1 c2 c3 where s: "s = [c0, c1, c2, c3]"
    unfolding lower_def map_eq_Cons_conv by blast
  have "lower_char c0 = CHR ''.''" "lower_char c1 = CHR ''c''" "lower_char c2 = CHR ''s''"
    "lower_char c3 = CHR ''v''"
    using h unfolding s lower_def by simp_all
  then show "\<exists>c1 c2 c3. s = [CHR ''.'', c1, c2, c3] \<and> (c1 = CHR ''c'' \<or> c1 = CHR ''C'') \<and>
        (c2 = CHR ''s'' \<or> c2 = CHR ''S'') \<and> (c3 = CHR ''v'' \<or> c3 = CHR ''V'')"
    unfolding s lower_char_dot lower_char_c lower_char_s lower_char_v by simp
next
  assume "\<exists>c1 c2 c3. s = [CHR ''.'', c1, c2, c3] \<and> (c1 = CHR ''c'' \<or> c1 = CHR ''C'') \<and>
        (c2 = CHR ''s'' \<or> c2 = CHR ''S'') \<and> (c3 = CHR ''v'' \<or> c3 = CHR ''V'')"
  then obtain c1 c2 c3 where s: "s = [CHR ''.'', c1, c2, c3]"
    and "lower_char c1 = CHR ''c''" "lower_char c2 = CHR ''s''" "lower_char c3 = CHR ''v''"
    unfolding lower_char_c lower_char_s lower_char_v by blast
  moreover have "lower_char CHR ''.'' = CHR ''.''"
    unfolding lower_char_dot ..
  ultimately show "lower s = ''.csv''"
    by (simp add: lower_def)
qed

lemma map_eq_5:
  assumes "map f s = [a0, a1, a2, a3, a4]"
  shows "\<exists>c0 c1 c2 c3 c4. s = [c0, c1, c2, c3, c4] \<and> f c0 = a0 \<and> f c1 = a1 \<and> f c2 = a2 \<and>
           f c3 = a3 \<and> f c4 = a4"
proof -
  from assms obtain c0 s1 where 0: "s = c0 # s1" "f c0 = a0" "map f s1 = [a1, a2, a3, a4]"
    by (auto simp: map_eq_Cons_conv)
  from 0(3) obtain c1 s2 where 1: "s1 = c1 # s2" "f c1 = a1" "map f s2 = [a2, a3, a4]"
    by (auto simp: map_eq_Cons_conv)
  from 1(3) obtain c2 s3 where 2: "s2 = c2 # s3" "f c2 = a2" "map f s3 = [a3, a4]"
    by (auto simp: map_eq_Cons_conv)
  from 2(3) obtain c3 c4 where 3: "s3 = [c3, c4]" "f c3 = a3" "f c4 = a4"
    by (auto simp: map_eq_Cons_conv)
  show ?thesis using 0 1 2 3 by simp
qed

lemma lower_json:
  "(lower s = ''.json'') =
     (\<exists>c1 c2 c3 c4. s = [CHR ''.'', c1, c2, c3, c4] \<and> (c1 = CHR ''j'' \<or> c1 = CHR ''J'') \<and>
        (c2 = CHR ''s'' \<or> c2 = CHR ''S'') \<and> (c3 = CHR ''o'' \<or> c3 = CHR ''O'') \<and>
        (c4 = CHR ''n'' \<or> c4 = CHR ''N''))"
proof
  assume h: "lower s = ''.json''"
  then obtain c0 c1 c2 c3 c4 where s: "s = [c0, c1, c2, c3, c4]"
    and "lower_char c0 = CHR ''.''" "lower_char c1 = CHR ''j''" "lower_char c2 = CHR ''s''"
    "lower_char c3 = CHR ''o''" "lower_char c4 = CHR ''n''"
    unfolding lower_def using map_eq_5 [of lower_char s] by blast
  then show "\<exists>c1 c2 c3 c4. s = [CHR ''.'', c1, c2, c3, c4] \<and>
        (c1 = CHR ''j'' \<or> c1 = CHR ''J'') \<and>
        (c2 = CHR ''s'' \<or> c2 = CHR ''S'') \<and> (c3 = CHR ''o'' \<or> c3 = CHR ''O'') \<and>
        (c4 = CHR ''n'' \<or> c4 = CHR ''N'')"
    unfolding s lower_char_dot lower_char_j lower_char_s lower_char_o lower_char_n by simp
next
  assume "\<exists>c1 c2 c3 c4. s = [CHR ''.'', c1, c2, c3, c4] \<and>
        (c1 = CHR ''j'' \<or> c1 = CHR ''J'') \<and>
        (c2 = CHR ''s'' \<or> c2 = CHR ''S'') \<and> (c3 = CHR ''o'' \<or> c3 = CHR ''O'') \<and>
        (c4 = CHR ''n'' \<or> c4 = CHR ''N'')"
  then obtain c1 c2 c3 c4 where s: "s = [CHR ''.'', c1, c2, c3, c4]"
    and "lower_char c1 = CHR ''j''" "lower_char c2 = CHR ''s''" "lower_char c3 = CHR ''o''"
      "lower_char c4 = CHR ''n''"
    unfolding lower_char_j lower_char_s lower_char_o lower_char_n by blast
  moreover have "lower_char CHR ''.'' = CHR ''.''"
    unfolding lower_char_dot ..
  ultimately show "lower s = ''.json''"
    by (simp add: lower_def)
qed

lemma review_loaded_log: "snd (review_loaded w months (r, log)) = log"
  by (simp add: review_loaded_def split: sum.splits)

lemma load_accounts_from_csv_read_json:
  "load_accounts_from_csv (w\<lparr>read_json := f\<rparr>) p log = load_accounts_from_csv w p log"
  by (simp add: load_accounts_from_csv_def)

lemma load_accounts_from_json_open_csv:
  "load_accounts_from_json (w\<lparr>open_csv := f\<rparr>) p log = load_accounts_from_json w p log"
  by (simp add: load_accounts_from_json_def)

lemma review_loaded_files:
  "review_loaded (w\<lparr>read_json := f\<rparr>) months x = review_loaded w months x"
  "review_loaded (w\<lparr>open_csv := g\<rparr>) months x = review_loaded w months x"
  by (simp_all add: review_loaded_def split: prod.splits sum.splits)

section \<open>Claims about the dispatch\<close>

text \<open>
  C8. \<^verbatim>\<open>run_review\<close> dispatches on the lower-cased extension. When it is
  \<^verbatim>\<open>.csv\<close> the run is the CSV loader followed by selection and plan building: the
  CSV file is the only file accessed, and the result does not depend on what reading
  JSON would give. When it is \<^verbatim>\<open>.json\<close> the same holds with the JSON loader. For
  every other extension the run fails with the unsupported-format error and has accessed
  no file. The extension matches \<^verbatim>\<open>.csv\<close> or \<^verbatim>\<open>.json\<close> in any letter case: a dot
  followed by the letters, each in upper or lower case.
\<close>

theorem run_review_dispatch:
  "(lower (suffix input_path) = ''.csv'' \<longrightarrow>
      run_review w input_path months log =
        review_loaded w months (load_accounts_from_csv w input_path log) \<and>
      snd (run_review w input_path months log) = log @ [CsvOpened input_path] \<and>
      run_review (w\<lparr>read_json := f\<rparr>) input_path months log =
        run_review w input_path months log) \<and>
   (lower (suffix input_path) = ''.json'' \<longrightarrow>
      run_review w input_path months log =
        review_loaded w months (load_accounts_from_json w input_path log) \<and>
      snd (run_review w input_path months log) = log @ [JsonRead input_path] \<and>
      run_review (w\<lparr>open_csv := g\<rparr>) input_path months log =
        run_review w input_path months log) \<and>
   (lower (suffix input_path) \<noteq> ''.csv'' \<and> lower (suffix input_path) \<noteq> ''.json'' \<longrightarrow>
      run_review w input_path months log = (Inl UnsupportedFormat, log)) \<and>
   (lower (suffix input_path) = ''.csv'') =
     (\<exists>c1 c2 c3. suffix input_path = [CHR ''.'', c1, c2, c3] \<and>
        (c1 = CHR ''c'' \<or> c1 = CHR ''C'') \<and> (c2 = CHR ''s'' \<or> c2 = CHR ''S'') \<and>
        (c3 = CHR ''v'' \<or> c3 = CHR ''V'')) \<and>
   (lower (suffix input_path) = ''.json'') =
     (\<exists>c1 c2 c3 c4. suffix input_path = [CHR ''.'', c1, c2, c3, c4] \<and>
        (c1 = CHR ''j'' \<or> c1 = CHR ''J'') \<and> (c2 = CHR ''s'' \<or> c2 = CHR ''S'') \<and>
        (c3 = CHR ''o'' \<or> c3 = CHR ''O'') \<and> (c4 = CHR ''n'' \<or> c4 = CHR ''N''))"
proof (intro conjI impI)
  assume c: "lower (suffix input_path) = ''.csv''"
  show 1: "run_review w input_path months log =
        review_loaded w months (load_accounts_from_csv w input_path log)"
    using c by (simp add: run_review_def)
  show "snd (run_review w input_path months log) = log @ [CsvOpened input_path]"
    unfolding 1 by (simp add: load_accounts_from_csv_def review_loaded_log)
  show "run_review (w\<lparr>read_json := f\<rparr>) input_path months log =
        run_review w input_path months log"
    using c
    by (simp add: run_review_def load_accounts_from_csv_read_json review_loaded_files)
next
  assume j: "lower (suffix input_path) = ''.json''"
  show 1: "run_review w input_path months log =
        review_loaded w months (load_accounts_from_json w input_path log)"
    using j by (simp add: run_review_def)
  show "snd (run_review w input_path months log) = log @ [JsonRead input_path]"
    unfolding 1 by (simp add: load_accounts_from_json_def review_loaded_log)
  show "run_review (w\<lparr>open_csv := g\<rparr>) input_path months log =
        run_review w input_path months log"
    using j
    by (simp add: run_review_def load_accounts_from_json_open_csv review_loaded_files)
next
  assume "lower (suffix input_path) \<noteq> ''.csv'' \<and> lower (suffix input_path) \<noteq> ''.json''"
  then show "run_review w input_path months log = (Inl UnsupportedFormat, log)"
    by (simp add: run_review_def)
next
  show "(lower (suffix input_path) = ''.csv'') =
     (\<exists>c1 c2 c3. suffix input_path = [CHR ''.'', c1, c2, c3] \<and>
        (c1 = CHR ''c'' \<or> c1 = CHR ''C'') \<and> (c2 = CHR ''s'' \<or> c2 = CHR ''S'') \<and>
        (c3 = CHR ''v'' \<or> c3 = CHR ''V''))"
    by (rule lower_csv)
  show "(lower (suffix input_path) = ''.json'') =
     (\<exists>c1 c2 c3 c4. suffix input_path = [CHR ''.'', c1, c2, c3, c4] \<and>
        (c1 = CHR ''j'' \<or> c1 = CHR ''J'') \<and> (c2 = CHR ''s'' \<or> c2 = CHR ''S'') \<and>
        (c3 = CHR ''o'' \<or> c3 = CHR ''O'') \<and> (c4 = CHR ''n'' \<or> c4 = CHR ''N''))"
    by (rule lower_json)
qed


theorem run_review_dispatch_witness:
  "lower ''.CSV'' = ''.csv'' \<and>
   run_review failing_files \<lparr>path_str = ''churn.CSV'', suffix = ''.CSV''\<rparr> 3 [] =
     (Inl ReadError, [CsvOpened \<lparr>path_str = ''churn.CSV'', suffix = ''.CSV''\<rparr>]) \<and>
   lower ''.Json'' = ''.json'' \<and>
   run_review failing_files \<lparr>path_str = ''churn.Json'', suffix = ''.Json''\<rparr> 3 [] =
     (Inl ReadError, [JsonRead \<lparr>path_str = ''churn.Json'', suffix = ''.Json''\<rparr>]) \<and>
   lower ''.txt'' \<noteq> ''.csv'' \<and> lower ''.txt'' \<noteq> ''.json'' \<and>
   run_review failing_files \<lparr>path_str = ''churn.txt'', suffix = ''.txt''\<rparr> 3 [] =
     (Inl UnsupportedFormat, [])"
proof -
  have c: "lower ''.CSV'' = ''.csv''" and t1: "lower ''.txt'' \<noteq> ''.csv''"
    by (simp_all add: lower_csv)
  have j: "lower ''.Json'' = ''.json''" and t2: "lower ''.txt'' \<noteq> ''.json''"
    and cj: "lower ''.CSV'' \<noteq> ''.json''"
    by (simp_all add: lower_json)
  show ?thesis
    using c j t1 t2 cj
      run_review_dispatch [of "\<lparr>path_str = ''churn.CSV'', suffix = ''.CSV''\<rparr>" failing_files 3 "[]"]
      run_review_dispatch [of "\<lparr>path_str = ''churn.Json'', suffix = ''.Json''\<rparr>" failing_files 3 "[]"]
      run_review_dispatch [of "\<lparr>path_str = ''churn.txt'', suffix = ''.txt''\<rparr>" failing_files 3 "[]"]
    by (simp add: review_loaded_def load_accounts_from_csv_def load_accounts_from_json_def
        failing_files_def)
qed

section \<open>Loaders, characterised\<close>

text \<open>Both loaders produce valid churn dates, and the CSV loader never stores an empty
  string as reason or owner.\<close>

lemma date_new_valid: "date_new y m d = Inr x \<Longrightarrow> valid_date x"
  by (auto simp: date_new_def valid_date_def split: if_splits)

lemma parse_date_valid: "parse_date v = Inr x \<Longrightarrow> valid_date x"
  by (auto simp: parse_date_def split: option.splits sum.splits dest: date_new_valid)

lemma or_none_not_empty: "or_none x \<noteq> Some []"
  by (simp add: or_none_def split: option.splits)

lemma csv_rows_loop_normalizes:
  assumes "csv_rows_loop rows accounts = Inr result"
    and "\<forall>a \<in> set accounts.
           valid_date (churned_at a) \<and> churn_reason a \<noteq> Some [] \<and> owner a \<noteq> Some []"
  shows "\<forall>a \<in> set result.
           valid_date (churned_at a) \<and> churn_reason a \<noteq> Some [] \<and> owner a \<noteq> Some []"
  using assms
proof (induction rows arbitrary: accounts)
  case Nil
  then show ?case by simp
next
  case (Cons row rows)
  from Cons.prems(1) obtain v churned ident name where
    p: "parse_date v = Inr churned"
    and r: "csv_rows_loop rows
            (accounts @
              [\<lparr>account_id = ident, account_name = name, churned_at = churned,
                churn_reason = or_none (dict_get row ''churn_reason''),
                owner = or_none (dict_get row ''owner'')\<rparr>]) = Inr result"
    by (auto split: sum.splits)
  show ?case
    by (rule Cons.IH [OF r]) (use Cons.prems(2) parse_date_valid [OF p] in
        \<open>simp add: or_none_not_empty\<close>)
qed

lemma json_entries_loop_dates:
  assumes "json_entries_loop entries accounts = Inr result"
    and "\<forall>a \<in> set accounts. valid_date (churned_at a)"
  shows "\<forall>a \<in> set result. valid_date (churned_at a)"
  using assms
proof (induction entries accounts rule: json_entries_loop.induct)
  case (1 accounts)
  then show ?case by simp
next
  case (2 entries accounts)
  then show ?case by simp
next
  case (3 entry entries accounts)
  from "3.prems"(1) obtain ident name v churned where
    i: "subscript entry ''account_id'' = Inr ident"
    and n: "subscript entry ''account_name'' = Inr name"
    and s: "subscript entry ''churned_at'' = Inr v"
    and p: "parse_date v = Inr churned"
    and r: "json_entries_loop entries
            (accounts @
              [\<lparr>account_id = ident, account_name = name, churned_at = churned,
                churn_reason = dict_get entry ''churn_reason'',
                owner = dict_get entry ''owner''\<rparr>]) = Inr result"
    by (auto split: sum.splits)
  show ?case
    by (rule "3.IH" [OF i n s p r]) (use "3.prems"(2) parse_date_valid [OF p] in simp)
qed

lemma parse_example: "parse_date (Some ''2024-01-01'') = Inr \<lparr>year = 2024, month = 1, day = 1\<rparr>"
  by (simp add: parse_date_def strptime_ymd_def match_month_def match_day_def is_digit_def
      digit_val_def date_new_def py_days_in_month_def c_int_def)

section \<open>Claims about the loaders\<close>

text \<open>
  C1. Both loaders are claimed to store an absent reason or owner, never the empty
  string. The JSON loader stores the member as it is: on an object whose
  \<^verbatim>\<open>churn_reason\<close> and \<^verbatim>\<open>owner\<close> are empty strings it returns an account holding
  the two empty strings, which breaks the invariant of the data model. The CSV loader, on
  a row with the same fields, stores \<^verbatim>\<open>None\<close> for both.
\<close>

theorem load_accounts_from_json_empty_string:
  "load_accounts_from_json example_files p [] =
     (Inr [\<lparr>account_id = Some ''a1'', account_name = Some ''Acme'',
            churned_at = \<lparr>year = 2024, month = 1, day = 1\<rparr>,
            churn_reason = Some '''', owner = Some ''''\<rparr>], [JsonRead p]) \<and>
   \<not> account_inv \<lparr>account_id = Some ''a1'', account_name = Some ''Acme'',
            churned_at = \<lparr>year = 2024, month = 1, day = 1\<rparr>,
            churn_reason = Some '''', owner = Some ''''\<rparr> \<and>
   load_accounts_from_csv example_files p [] =
     (Inr [\<lparr>account_id = Some ''a1'', account_name = Some ''Acme'',
            churned_at = \<lparr>year = 2024, month = 1, day = 1\<rparr>,
            churn_reason = None, owner = None\<rparr>], [CsvOpened p])"
  by (simp add: load_accounts_from_json_def load_accounts_from_csv_def example_files_def
      example_record_def subscript_def dict_get_def or_none_def parse_example account_inv_def)

end
